theory Spec2Isabelle
  imports Main "HOL-Library.Char_ord" "HOL-Library.List_Lexorder" "HOL-Library.Multiset"
begin

section \<open>Python string primitives used by the build pipeline\<close>

text \<open>
  Strings are \<^typ>\<open>string\<close>: a character is a code point below 256. Their order is
  the lexicographic order of the character codes, which is the order Python's
  \<^verbatim>\<open>list.sort\<close> uses on \<^verbatim>\<open>str\<close>.
\<close>

text \<open>
  The exceptions the modelled code raises. \<open>MissingHeaderError\<close> is the
  \<^verbatim>\<open>ValueError\<close> that \<^verbatim>\<open>parse_domains_from_functional_annotations_file\<close> raises with
  the message "does not seem to have a header"; \<open>ValueError\<close> is any other one (a failed
  unpacking, a failed \<^verbatim>\<open>int\<close>).
\<close>

datatype py_error = KeyError | IndexError | MissingHeaderError | ValueError

text \<open>\<^verbatim>\<open>s.split(sep)\<close> for a separator of one character: never an empty list.\<close>

fun split_char :: "char \<Rightarrow> string \<Rightarrow> string list" where
  "split_char sep [] = [[]]"
| "split_char sep (c # cs) =
     (if c = sep then [] # split_char sep cs
      else (case split_char sep cs of
              w # ws \<Rightarrow> (c # w) # ws
            | [] \<Rightarrow> [[c]]))"

text \<open>\<^verbatim>\<open>s.rstrip("\n")\<close>: every trailing newline is removed.\<close>

definition rstrip_newline :: "string \<Rightarrow> string" where
  "rstrip_newline s = rev (dropWhile (\<lambda>c. c = CHR 0x0A) (rev s))"

text \<open>\<^verbatim>\<open>s.replace(a, "")\<close> and \<^verbatim>\<open>s.replace(a, b)\<close> for single characters.\<close>

definition remove_char :: "char \<Rightarrow> string \<Rightarrow> string" where
  "remove_char a s = filter (\<lambda>c. c \<noteq> a) s"

definition replace_char :: "char \<Rightarrow> char \<Rightarrow> string \<Rightarrow> string" where
  "replace_char a b s = map (\<lambda>c. if c = a then b else c) s"

text \<open>\<^verbatim>\<open>sep.join(xs)\<close>.\<close>

fun join :: "string \<Rightarrow> string list \<Rightarrow> string" where
  "join sep [] = []"
| "join sep [x] = x"
| "join sep (x # y # ys) = x @ sep @ join sep (y # ys)"

text \<open>The decimal numeral an f-string prints for a non-negative integer.\<close>

definition digit_char :: "nat \<Rightarrow> char" where
  "digit_char d = char_of (48 + d)"

fun str_nat :: "nat \<Rightarrow> string" where
  "str_nat n = (if n < 10 then [digit_char n] else str_nat (n div 10) @ [digit_char (n mod 10)])"

declare str_nat.simps [simp del]

section \<open>Data model\<close>

text \<open>
  Modelled from the spec: class \<^verbatim>\<open>Protein\<close> (core/proteins.py). The identity fields
  are the four arguments of the constructor call in \<^verbatim>\<open>get_protein_list_from_seq_f\<close>;
  \<^verbatim>\<open>clustered\<close> is the mutable flag that \<^verbatim>\<open>parse_cluster_file\<close> sets and
  \<^verbatim>\<open>get_singletons\<close> reads, unset on a new protein.
\<close>

record Protein =
  protein_id :: string
  proteome_id :: string
  species_id :: string
  sequence_id :: string
  clustered :: bool

definition new_Protein :: "string \<Rightarrow> string \<Rightarrow> string \<Rightarrow> string \<Rightarrow> Protein" where
  "new_Protein pid prot sid seqid =
     \<lparr>protein_id = pid, proteome_id = prot, species_id = sid, sequence_id = seqid,
      clustered = False\<rparr>"

text \<open>
  Modelled from the spec: class \<^verbatim>\<open>Cluster\<close> (core/clusters.py). A cluster is the
  identifier and the member ids handed to its constructor, in the order given.
\<close>

record Cluster =
  cluster_id :: string
  protein_ids :: "string list"

definition new_Cluster :: "string \<Rightarrow> string list \<Rightarrow> Cluster" where
  "new_Cluster cid pids = \<lparr>cluster_id = cid, protein_ids = pids\<rparr>"

text \<open>
  Modelled from the spec: class \<^verbatim>\<open>ProteinCollection\<close> (core/proteins.py).
  \<^verbatim>\<open>proteins_list\<close> holds the Protein objects in insertion order. The dictionary
  \<^verbatim>\<open>proteins_by_protein_id\<close> refers to the same objects, so a dictionary value is the
  position of the object in \<^verbatim>\<open>proteins_list\<close>; a key that is absent raises
  \<^verbatim>\<open>KeyError\<close> on subscription.
\<close>

type_synonym domain_counter = "string \<rightharpoonup> int"

record ProteinCollection =
  proteins_list :: "Protein list"
  proteins_by_protein_id :: "string \<rightharpoonup> nat"
  domain_sources :: "string list"
  annotations :: "(string \<times> (string \<rightharpoonup> domain_counter) \<times> string list) list"
  functional_annotation_parsed :: bool

text \<open>
  Modelled from the spec: method \<^verbatim>\<open>add_annotation_to_protein\<close> (core/proteins.py), the
  spec's \<^verbatim>\<open>attach_annotation\<close>. It attaches the counters and the GO terms to the protein
  named; \<open>annotations\<close> keeps what was attached, one entry per call, in call order.
\<close>

definition add_annotation_to_protein ::
  "string \<Rightarrow> (string \<rightharpoonup> domain_counter) \<Rightarrow> string list \<Rightarrow> ProteinCollection \<Rightarrow> ProteinCollection" where
  "add_annotation_to_protein domain_protein_id domain_counter_by_domain_source go_terms pc =
     pc\<lparr>annotations := annotations pc @
          [(domain_protein_id, domain_counter_by_domain_source, go_terms)]\<rparr>"

section \<open>parse_cluster_file\<close>

text \<open>
  The \<^verbatim>\<open>stats\<close> dictionary. The two proteome counters are
  \<^verbatim>\<open>defaultdict(int)\<close>: association lists in insertion order. The two
  \<^verbatim>\<open>_count\<close> keys are added after the loop and are 0 until then. The counts start at
  0 and only grow: they are natural numbers.
\<close>

record Stats =
  total_clusters :: nat
  total_proteins :: nat
  total_proteomes :: nat
  filtered_clusters :: nat
  filtered_proteins :: nat
  included_proteins :: "string list"
  excluded_proteins :: "string list"
  included_proteomes :: "(string \<times> nat) list"
  excluded_proteomes :: "(string \<times> nat) list"
  included_proteins_count :: nat
  excluded_proteins_count :: nat

definition initial_stats :: "string set \<Rightarrow> Stats" where
  "initial_stats available_proteomes =
     \<lparr>total_clusters = 0, total_proteins = 0, total_proteomes = card available_proteomes,
      filtered_clusters = 0, filtered_proteins = 0,
      included_proteins = [], excluded_proteins = [],
      included_proteomes = [], excluded_proteomes = [],
      included_proteins_count = 0, excluded_proteins_count = 0\<rparr>"

text \<open>\<^verbatim>\<open>d[k] += 1\<close> on a \<^verbatim>\<open>defaultdict(int)\<close>.\<close>

fun increment :: "string \<Rightarrow> (string \<times> nat) list \<Rightarrow> (string \<times> nat) list" where
  "increment k [] = [(k, 1)]"
| "increment k ((k', n) # kvs) =
     (if k = k' then (k', n + 1) # kvs else (k', n) # increment k kvs)"

text \<open>The inner loop over the protein ids of one line (lines 105 to 114).\<close>

fun filter_proteins ::
  "string set \<Rightarrow> string list \<Rightarrow> string list \<times> Stats \<Rightarrow> string list \<times> Stats" where
  "filter_proteins available_proteomes [] (filtered_protein_ids, st) = (filtered_protein_ids, st)"
| "filter_proteins available_proteomes (pid # rest) (filtered_protein_ids, st) =
     (let prot = hd (split_char CHR ''.'' pid) in
      if prot \<in> available_proteomes
      then filter_proteins available_proteomes rest
             (filtered_protein_ids @ [pid],
              st\<lparr>included_proteins := included_proteins st @ [pid],
                 included_proteomes := increment prot (included_proteomes st)\<rparr>)
      else filter_proteins available_proteomes rest
             (filtered_protein_ids,
              st\<lparr>excluded_proteins := excluded_proteins st @ [pid],
                 excluded_proteomes := increment prot (excluded_proteomes st)\<rparr>))"

text \<open>The loop of lines 124 to 126: look each id up, set the flag of the object found.\<close>

fun mark_clustered :: "string list \<Rightarrow> ProteinCollection \<Rightarrow> py_error + ProteinCollection" where
  "mark_clustered [] pc = Inr pc"
| "mark_clustered (pid # rest) pc =
     (case proteins_by_protein_id pc pid of
        None \<Rightarrow> Inl KeyError
      | Some i \<Rightarrow>
          mark_clustered rest
            (pc\<lparr>proteins_list :=
                  (proteins_list pc)[i := (proteins_list pc ! i)\<lparr>clustered := True\<rparr>]\<rparr>))"

text \<open>
  The state of the outer loop: the list being built, the chunks written to
  \<^verbatim>\<open>orthogroups.filtered.txt\<close> (one per \<^verbatim>\<open>ofh.write\<close>), the statistics and the
  protein collection.
\<close>

record loop_state =
  cluster_list :: "Cluster list"
  ofh :: "string list"
  stats :: Stats
  proteinCollection :: ProteinCollection

text \<open>
  One iteration of the loop over the lines (lines 100 to 130). An exception ends the run:
  the \<^verbatim>\<open>except\<close> clause logs it and raises it again.
\<close>

definition process_line :: "string set \<Rightarrow> loop_state \<Rightarrow> string \<Rightarrow> py_error + loop_state" where
  "process_line available_proteomes s line =
     (let st1 = (stats s)\<lparr>total_clusters := total_clusters (stats s) + 1\<rparr>;
          temp = split_char CHR '' '' (rstrip_newline line);
          cid = remove_char CHR '':'' (hd temp);
          pids = filter (\<lambda>pid. pid \<noteq> []) (tl temp);
          (filtered_protein_ids, st2) = filter_proteins available_proteomes pids ([], st1);
          st3 = st2\<lparr>total_proteins := total_proteins st2 + length pids,
                    filtered_proteins := filtered_proteins st2 + length filtered_protein_ids\<rparr>
      in if filtered_protein_ids \<noteq> []
         then (case mark_clustered filtered_protein_ids (proteinCollection s) of
                 Inl e \<Rightarrow> Inl e
               | Inr pc \<Rightarrow>
                   Inr (s\<lparr>cluster_list := cluster_list s @ [new_Cluster cid filtered_protein_ids],
                          ofh := ofh s @
                            [cid @ '': '' @ join '', '' (sort filtered_protein_ids) @ [CHR 0x0A]],
                          stats := st3\<lparr>filtered_clusters := filtered_clusters st3 + 1\<rparr>,
                          proteinCollection := pc\<rparr>))
         else Inr (s\<lparr>stats := st3\<rparr>))"

fun process_lines :: "string set \<Rightarrow> loop_state \<Rightarrow> string list \<Rightarrow> py_error + loop_state" where
  "process_lines available_proteomes s [] = Inr s"
| "process_lines available_proteomes s (line # rest) =
     (case process_line available_proteomes s line of
        Inl e \<Rightarrow> Inl e
      | Inr s' \<Rightarrow> process_lines available_proteomes s' rest)"

text \<open>
  JSON documents as Python holds them: what is handed to \<^verbatim>\<open>json.dump\<close> and what
  \<^verbatim>\<open>json.load\<close> returns. An object is a \<^verbatim>\<open>dict\<close> and keeps the order of its keys.
  Numbers with a fraction do not occur in \<^verbatim>\<open>summary.json\<close> and are left out.
\<close>

datatype json =
  JNull | JBool bool | JInt int | JStr string | JList "json list" | JObj "(string \<times> json) list"

definition ordered_stats :: "Stats \<Rightarrow> json" where
  "ordered_stats st = JObj
     [(''total_clusters'', JInt (int (total_clusters st))),
      (''total_proteins'', JInt (int (total_proteins st))),
      (''total_proteomes'', JInt (int (total_proteomes st))),
      (''filtered_clusters'', JInt (int (filtered_clusters st))),
      (''filtered_proteins'', JInt (int (filtered_proteins st))),
      (''included_proteins_count'', JInt (int (included_proteins_count st))),
      (''excluded_proteins_count'', JInt (int (excluded_proteins_count st))),
      (''included_proteomes'', JObj (map (\<lambda>(k, n). (k, JInt (int n))) (included_proteomes st))),
      (''excluded_proteomes'', JObj (map (\<lambda>(k, n). (k, JInt (int n))) (excluded_proteomes st))),
      (''included_proteins'', JList (map JStr (included_proteins st))),
      (''excluded_proteins'', JList (map JStr (excluded_proteins st)))]"

text \<open>
  What a run that returns leaves behind: the returned list, the collection as mutated, the
  chunks written to \<^verbatim>\<open>orthogroups.filtered.txt\<close>, the final \<^verbatim>\<open>stats\<close> and the
  document dumped to \<^verbatim>\<open>summary.json\<close>. The first argument of
  \<open>parse_cluster_file\<close> is what the iteration over the handle of \<^verbatim>\<open>cluster_f\<close>
  yields: the lines of the file, each with its line feed. \<^verbatim>\<open>output_dir\<close> only names
  the two files written and is left out.
\<close>

record parse_output =
  clusters :: "Cluster list"
  collection :: ProteinCollection
  orthogroups_filtered_txt :: "string list"
  final_stats :: Stats
  summary_json :: json

definition parse_cluster_file ::
  "string list \<Rightarrow> ProteinCollection \<Rightarrow> string set \<Rightarrow> py_error + parse_output" where
  "parse_cluster_file fh pc available_proteomes =
     (case process_lines available_proteomes
             \<lparr>cluster_list = [], ofh = [], stats = initial_stats available_proteomes,
              proteinCollection = pc\<rparr> fh of
        Inl e \<Rightarrow> Inl e
      | Inr s \<Rightarrow>
          (let st = (stats s)
                 \<lparr>included_proteins_count := length (remdups (included_proteins (stats s))),
                  excluded_proteins_count := length (remdups (excluded_proteins (stats s)))\<rparr>
           in Inr \<lparr>clusters = cluster_list s, collection = proteinCollection s,
                   orthogroups_filtered_txt = ofh s, final_stats = st,
                   summary_json = ordered_stats st\<rparr>))"


section \<open>get_singletons and build_ClusterCollection\<close>

text \<open>The loop of \<^verbatim>\<open>get_singletons\<close>: the list being extended and \<^verbatim>\<open>singleton_idx\<close>.\<close>

fun singletons_loop :: "Protein list \<Rightarrow> Cluster list \<times> nat \<Rightarrow> Cluster list \<times> nat" where
  "singletons_loop [] (clist, singleton_idx) = (clist, singleton_idx)"
| "singletons_loop (protein # rest) (clist, singleton_idx) =
     (if clustered protein = False
      then singletons_loop rest
             (clist @ [new_Cluster (''singleton_'' @ str_nat singleton_idx) [protein_id protein]],
              singleton_idx + 1)
      else singletons_loop rest (clist, singleton_idx))"

text \<open>
  The second argument is the caller's \<^verbatim>\<open>cluster_list\<close>; the result is that list after
  the appends, and the number returned.
\<close>

definition get_singletons :: "ProteinCollection \<Rightarrow> Cluster list \<Rightarrow> Cluster list \<times> nat" where
  "get_singletons pc clist = singletons_loop (proteins_list pc) (clist, 0)"

text \<open>
  \<^verbatim>\<open>build_ClusterCollection\<close>, up to the first two arguments it hands to the constructor
  of \<^verbatim>\<open>ClusterCollection\<close>: the cluster list and \<^verbatim>\<open>inferred_singletons_count\<close>.
  \<^verbatim>\<open>infer_singletons\<close> is an \<^verbatim>\<open>Optional[bool]\<close> tested for truth.
\<close>

definition build_ClusterCollection ::
  "string list \<Rightarrow> ProteinCollection \<Rightarrow> bool option \<Rightarrow> string set \<Rightarrow> py_error + Cluster list \<times> nat" where
  "build_ClusterCollection fh pc infer_singletons available_proteomes =
     (case parse_cluster_file fh pc available_proteomes of
        Inl e \<Rightarrow> Inl e
      | Inr out \<Rightarrow>
          (if infer_singletons = Some True
           then Inr (get_singletons (collection out) (clusters out))
           else Inr (clusters out, 0)))"

section \<open>get_protein_list_from_seq_f\<close>

text \<open>\<^verbatim>\<open>s.split(ab)\<close> for a separator of two different characters, as \<^verbatim>\<open>": "\<close> is.\<close>

fun split_pair :: "char \<Rightarrow> char \<Rightarrow> string \<Rightarrow> string list" where
  "split_pair a b [] = [[]]"
| "split_pair a b [c] = [[c]]"
| "split_pair a b (c # d # cs) =
     (if c = a \<and> d = b then [] # split_pair a b cs
      else (case split_pair a b (d # cs) of
              w # ws \<Rightarrow> (c # w) # ws
            | [] \<Rightarrow> [[c]]))"

text \<open>The four replacements, in the order of the source.\<close>

definition orthofinder_id :: "string \<Rightarrow> string" where
  "orthofinder_id s =
     replace_char CHR '')'' CHR ''_''
       (replace_char CHR ''('' CHR ''_''
          (replace_char CHR '','' CHR ''_''
             (replace_char CHR '':'' CHR ''_'' s)))"

text \<open>
  One iteration of the loop: an error, no protein, or the protein appended.
  \<^verbatim>\<open>temp[1]\<close> raises \<^verbatim>\<open>IndexError\<close> when the line holds no \<^verbatim>\<open>": "\<close>. The walrus
  test is a test for truth: a proteome id that is the empty string counts as absent.
\<close>

definition seq_line :: "(string \<rightharpoonup> string) \<Rightarrow> string \<Rightarrow> py_error + Protein option" where
  "seq_line proteome_id_by_species_id line =
     (case split_pair CHR '':'' CHR '' '' line of
        seqid # field # _ \<Rightarrow>
          (let pid = orthofinder_id (hd (split_char CHR '' '' field));
               sid = hd (split_char CHR ''_'' seqid)
           in case proteome_id_by_species_id sid of
                None \<Rightarrow> Inr None
              | Some prot \<Rightarrow>
                  if prot \<noteq> [] then Inr (Some (new_Protein pid prot sid seqid)) else Inr None)
      | _ \<Rightarrow> Inl IndexError)"

fun seq_lines :: "(string \<rightharpoonup> string) \<Rightarrow> string list \<Rightarrow> Protein list \<Rightarrow> py_error + Protein list" where
  "seq_lines m [] proteins = Inr proteins"
| "seq_lines m (line # rest) proteins =
     (case seq_line m line of
        Inl e \<Rightarrow> Inl e
      | Inr None \<Rightarrow> seq_lines m rest proteins
      | Inr (Some protein) \<Rightarrow> seq_lines m rest (proteins @ [protein]))"

text \<open>
  The first argument is what \<^verbatim>\<open>yield_file_lines\<close> yields for the file (core/utils.py is
  not part of src), the second is \<^verbatim>\<open>aloCollection.proteome_id_by_species_id\<close>.
\<close>

definition get_protein_list_from_seq_f ::
  "string list \<Rightarrow> (string \<rightharpoonup> string) \<Rightarrow> py_error + Protein list" where
  "get_protein_list_from_seq_f file_lines proteome_id_by_species_id =
     seq_lines proteome_id_by_species_id file_lines []"

section \<open>parse_domains_from_functional_annotations_file\<close>

text \<open>
  \<^verbatim>\<open>line.split()\<close>: the maximal runs of characters that are not white space. The white
  space of \<^verbatim>\<open>str\<close> below 256 is tab, line feed, vertical tab, form feed, carriage
  return, the four separators 28 to 31, the space, the next-line control 133 and the
  no-break space 160.
\<close>

definition is_space :: "char \<Rightarrow> bool" where
  "is_space c = ((of_char c :: nat) \<in> {9, 10, 11, 12, 13, 28, 29, 30, 31, 32, 133, 160})"

fun split_ws :: "string \<Rightarrow> string \<Rightarrow> string list" where
  "split_ws cur [] = (if cur = [] then [] else [rev cur])"
| "split_ws cur (c # cs) =
     (if is_space c then (if cur = [] then split_ws [] cs else rev cur # split_ws [] cs)
      else split_ws (c # cur) cs)"

definition split_whitespace :: "string \<Rightarrow> string list" where
  "split_whitespace s = split_ws [] s"

text \<open>\<^verbatim>\<open>s.split(sep, n)\<close> and \<^verbatim>\<open>s.rsplit(sep, n)\<close>: at most \<open>n\<close> cuts.\<close>

fun split_char_max :: "char \<Rightarrow> nat \<Rightarrow> string \<Rightarrow> string list" where
  "split_char_max sep 0 s = [s]"
| "split_char_max sep (Suc n) [] = [[]]"
| "split_char_max sep (Suc n) (c # cs) =
     (if c = sep then [] # split_char_max sep n cs
      else (case split_char_max sep (Suc n) cs of
              w # ws \<Rightarrow> (c # w) # ws
            | [] \<Rightarrow> [[c]]))"

definition rsplit_char_max :: "char \<Rightarrow> nat \<Rightarrow> string \<Rightarrow> string list" where
  "rsplit_char_max sep n s = rev (map rev (split_char_max sep n (rev s)))"

text \<open>
  \<^verbatim>\<open>int(s)\<close>: white space at both ends is dropped; then come an optional sign and
  decimal digits, where single underscores may stand between digits. No more than 4300
  digits are read, leading zeros counted, sign and underscores not: the default of
  \<^verbatim>\<open>sys.int_max_str_digits\<close>. Anything else raises \<^verbatim>\<open>ValueError\<close>, here
  \<open>None\<close>. Below 256 the decimal digits are those of ASCII.
\<close>

definition strip :: "string \<Rightarrow> string" where
  "strip s = dropWhile is_space (rev (dropWhile is_space (rev s)))"

definition is_digit :: "char \<Rightarrow> bool" where
  "is_digit c = (48 \<le> (of_char c :: nat) \<and> (of_char c :: nat) \<le> 57)"

definition digit_value :: "char \<Rightarrow> nat" where
  "digit_value c = of_char c - 48"

fun int_digits :: "nat \<Rightarrow> bool \<Rightarrow> string \<Rightarrow> nat option" where
  "int_digits acc after_underscore [] = (if after_underscore then None else Some acc)"
| "int_digits acc after_underscore (c # cs) =
     (if is_digit c then int_digits (10 * acc + digit_value c) False cs
      else if c = CHR ''_'' \<and> \<not> after_underscore then int_digits acc True cs
      else None)"

definition int_unsigned :: "string \<Rightarrow> nat option" where
  "int_unsigned s =
     (case s of
        [] \<Rightarrow> None
      | c # cs \<Rightarrow>
          if is_digit c \<and> length (filter is_digit s) \<le> 4300
          then int_digits (digit_value c) False cs
          else None)"

definition py_int :: "string \<Rightarrow> int option" where
  "py_int s =
     (case strip s of
        [] \<Rightarrow> None
      | c # cs \<Rightarrow>
          if c = CHR ''-'' then map_option (\<lambda>n. - int n) (int_unsigned cs)
          else if c = CHR ''+'' then map_option int (int_unsigned cs)
          else map_option int (int_unsigned (c # cs)))"

text \<open>The loop over the \<^verbatim>\<open>;\<close>-separated items of one field (lines 220 to 228).\<close>

fun domain_counts :: "string \<Rightarrow> string list \<Rightarrow> domain_counter \<Rightarrow> py_error + domain_counter" where
  "domain_counts domain_source [] counts = Inr counts"
| "domain_counts domain_source (domain_id_count # rest) counts =
     (if domain_source = ''GO''
      then domain_counts domain_source rest (counts(domain_id_count \<mapsto> 1))
      else (case rsplit_char_max CHR '':'' 2 domain_id_count of
              [domain_id, domain_count_str] \<Rightarrow>
                (case py_int domain_count_str of
                   None \<Rightarrow> Inl ValueError
                 | Some domain_count \<Rightarrow>
                     domain_counts domain_source rest (counts(domain_id \<mapsto> domain_count)))
            | _ \<Rightarrow> Inl ValueError))"

text \<open>
  The loop over \<^verbatim>\<open>enumerate(temp)\<close> (lines 215 to 230). \<^verbatim>\<open>domain_sources[idx]\<close>
  raises \<^verbatim>\<open>IndexError\<close> for a field beyond the header's columns.
\<close>

fun domain_fields ::
  "string list \<Rightarrow> nat \<Rightarrow> string list \<Rightarrow> (string \<rightharpoonup> domain_counter) \<Rightarrow>
     py_error + (string \<rightharpoonup> domain_counter)" where
  "domain_fields sources idx [] by_source = Inr by_source"
| "domain_fields sources idx (field # rest) by_source =
     (if field \<noteq> ''None''
      then (if idx < length sources
            then (case domain_counts (sources ! idx) (split_char CHR '';'' field) Map.empty of
                    Inl e \<Rightarrow> Inl e
                  | Inr counts \<Rightarrow>
                      domain_fields sources (idx + 1) rest (by_source(sources ! idx \<mapsto> counts)))
            else Inl IndexError)
      else domain_fields sources (idx + 1) rest by_source)"

definition startswith_hash :: "string \<Rightarrow> bool" where
  "startswith_hash s = (case s of [] \<Rightarrow> False | c # _ \<Rightarrow> c = CHR ''#'')"

text \<open>One iteration of the loop over the lines (lines 203 to 235).\<close>

definition annotation_line :: "ProteinCollection \<Rightarrow> string \<Rightarrow> py_error + ProteinCollection" where
  "annotation_line pc line =
     (case split_whitespace line of
        [] \<Rightarrow> Inl IndexError
      | first # rest \<Rightarrow>
          if startswith_hash first then Inr (pc\<lparr>domain_sources := rest\<rparr>)
          else if domain_sources pc = [] then Inl MissingHeaderError
          else (case domain_fields (domain_sources pc) 0 rest Map.empty of
                  Inl e \<Rightarrow> Inl e
                | Inr by_source \<Rightarrow> Inr (add_annotation_to_protein first by_source [] pc)))"

fun annotation_lines :: "ProteinCollection \<Rightarrow> string list \<Rightarrow> py_error + ProteinCollection" where
  "annotation_lines pc [] = Inr pc"
| "annotation_lines pc (line # rest) =
     (case annotation_line pc line of
        Inl e \<Rightarrow> Inl e
      | Inr pc' \<Rightarrow> annotation_lines pc' rest)"

text \<open>The first argument is what \<^verbatim>\<open>yield_file_lines\<close> yields for the file.\<close>

definition parse_domains_from_functional_annotations_file ::
  "string list \<Rightarrow> ProteinCollection \<Rightarrow> py_error + ProteinCollection" where
  "parse_domains_from_functional_annotations_file file_lines pc =
     (case annotation_lines pc file_lines of
        Inl e \<Rightarrow> Inl e
      | Inr pc' \<Rightarrow> Inr (pc'\<lparr>functional_annotation_parsed := True\<rparr>))"


section \<open>get_run_summary\<close>

text \<open>
  What the endpoint sees of a session: the directory \<^verbatim>\<open>query_manager.get_session_dir\<close>
  returns, whether the status file exists, the \<^verbatim>\<open>status\<close> entry read from it, and
  \<^verbatim>\<open>summary.json\<close> in the session directory: absent, not parsable by
  \<^verbatim>\<open>json.load\<close>, or loaded.
\<close>

datatype summary_file = Missing | Unparsable | Loaded json

record session =
  session_dir :: "string option"
  status_file_exists :: bool
  run_status :: "string option"
  summary_file :: summary_file

text \<open>
  The decorator \<^verbatim>\<open>check_kinfin_session\<close> answers by itself unless the session has a
  directory, a status file, and a status that is none of \<^verbatim>\<open>running\<close>,
  \<^verbatim>\<open>pending\<close> and \<^verbatim>\<open>error\<close>; only then is the endpoint called.
\<close>

definition check_kinfin_session :: "session \<Rightarrow> bool" where
  "check_kinfin_session env =
     (if session_dir env = None \<or> session_dir env = Some [] then False
      else if \<not> status_file_exists env then False
      else if run_status env = Some ''running'' \<or> run_status env = Some ''pending'' then False
      else if run_status env = Some ''error'' then False
      else True)"

text \<open>The status code of the \<^verbatim>\<open>JSONResponse\<close> and three fields of its \<^verbatim>\<open>ResponseSchema\<close>.\<close>

record response =
  status_code :: nat
  status :: string
  message :: string
  data :: "json option"

datatype answer = By_decorator | By_endpoint response

text \<open>
  \<^verbatim>\<open>detailed\<close> is \<open>None\<close> when the query parameter is absent. Any exception in the body
  (a file that does not parse, a document without \<^verbatim>\<open>items\<close>) ends in the answer 500.
\<close>

definition internal_server_error :: response where
  "internal_server_error =
     \<lparr>status_code = 500, status = ''error'', message = ''Internal Server Error'', data = None\<rparr>"

definition get_run_summary :: "session \<Rightarrow> bool option \<Rightarrow> answer" where
  "get_run_summary env detailed =
     (if \<not> check_kinfin_session env then By_decorator
      else By_endpoint
        (case summary_file env of
           Missing \<Rightarrow>
             \<lparr>status_code = 404, status = ''error'',
              message = ''summary.json File Not Found'', data = None\<rparr>
         | Unparsable \<Rightarrow> internal_server_error
         | Loaded doc \<Rightarrow>
             (if detailed \<noteq> Some True
              then (case doc of
                      JObj items \<Rightarrow>
                        \<lparr>status_code = 200, status = ''success'',
                         message = ''Run summary retrieved successfully.'',
                         data = Some (JObj (filter
                           (\<lambda>(k, v). k \<notin> set [''included_proteins'', ''excluded_proteins''])
                           items))\<rparr>
                    | _ \<Rightarrow> internal_server_error)
              else \<lparr>status_code = 200, status = ''success'',
                    message = ''Run summary retrieved successfully.'', data = Some doc\<rparr>)))"

section \<open>Notions used to state the properties\<close>

subsection \<open>Cluster file\<close>

text \<open>
  What one line of the cluster file holds: the cluster id (the first token without its
  colons), the member ids (the other tokens that are not empty), and the members whose
  proteome prefix, the id up to the first dot, is or is not an available proteome.
\<close>

definition line_cluster_id :: "string \<Rightarrow> string" where
  "line_cluster_id line = remove_char CHR '':'' (hd (split_char CHR '' '' (rstrip_newline line)))"

definition line_protein_ids :: "string \<Rightarrow> string list" where
  "line_protein_ids line =
     filter (\<lambda>pid. pid \<noteq> []) (tl (split_char CHR '' '' (rstrip_newline line)))"

definition proteome_prefix :: "string \<Rightarrow> string" where
  "proteome_prefix pid = takeWhile (\<lambda>c. c \<noteq> CHR ''.'') pid"

definition included :: "string set \<Rightarrow> string \<Rightarrow> string list" where
  "included available_proteomes line =
     filter (\<lambda>pid. proteome_prefix pid \<in> available_proteomes) (line_protein_ids line)"

definition excluded :: "string set \<Rightarrow> string \<Rightarrow> string list" where
  "excluded available_proteomes line =
     filter (\<lambda>pid. proteome_prefix pid \<notin> available_proteomes) (line_protein_ids line)"

text \<open>The lines that keep a member, and the text of one line of the audit file.\<close>

definition retained :: "string set \<Rightarrow> string list \<Rightarrow> string list" where
  "retained available_proteomes fh = filter (\<lambda>line. included available_proteomes line \<noteq> []) fh"

definition filtered_line :: "string \<Rightarrow> string list \<Rightarrow> string" where
  "filtered_line cid pids = cid @ '': '' @ join '', '' pids @ [CHR 0x0A]"

text \<open>The keys of a JSON object, in order.\<close>

definition object_keys :: "json \<Rightarrow> string list" where
  "object_keys doc = (case doc of JObj items \<Rightarrow> map fst items | _ \<Rightarrow> [])"

subsection \<open>Sequence-id mapping\<close>

text \<open>
  The protein id as the property words it: the text after the first \<^verbatim>\<open>": "\<close> of the
  line, cut at its first space, with the four characters replaced.
\<close>

fun after_colon_space :: "string \<Rightarrow> string option" where
  "after_colon_space [] = None"
| "after_colon_space [c] = None"
| "after_colon_space (c # d # cs) =
     (if c = CHR '':'' \<and> d = CHR '' '' then Some cs else after_colon_space (d # cs))"

definition first_token :: "string \<Rightarrow> string" where
  "first_token s = takeWhile (\<lambda>c. c \<noteq> CHR '' '') s"

definition claimed_protein_id :: "string \<Rightarrow> string option" where
  "claimed_protein_id line = map_option (\<lambda>r. orthofinder_id (first_token r)) (after_colon_space line)"

text \<open>The species prefix of a line: its text up to the first underscore or \<^verbatim>\<open>": "\<close>.\<close>

definition species_prefix :: "string \<Rightarrow> string" where
  "species_prefix line =
     takeWhile (\<lambda>c. c \<noteq> CHR ''_'') (hd (split_pair CHR '':'' CHR '' '' line))"

text \<open>
  The protein a line stands for, if any: the protein id as worded above, for a species
  prefix that the mapping resolves to a proteome id that is not empty. The second notion
  holds of a line with a \<^verbatim>\<open>": "\<close> whose token after it does not end in a colon.
\<close>

definition line_protein :: "(string \<rightharpoonup> string) \<Rightarrow> string \<Rightarrow> Protein option" where
  "line_protein m line =
     (case claimed_protein_id line of
        None \<Rightarrow> None
      | Some pid \<Rightarrow>
          (case m (species_prefix line) of
             None \<Rightarrow> None
           | Some prot \<Rightarrow>
               if prot = [] then None
               else Some (new_Protein pid prot (species_prefix line)
                      (hd (split_pair CHR '':'' CHR '' '' line)))))"

definition token_without_final_colon :: "string \<Rightarrow> bool" where
  "token_without_final_colon line =
     (case after_colon_space line of
        None \<Rightarrow> False
      | Some r \<Rightarrow> first_token r = [] \<or> last (first_token r) \<noteq> CHR '':'')"

subsection \<open>Annotation table\<close>

text \<open>A header row starts with \<^verbatim>\<open>#\<close>; a data row has a first token that does not.\<close>

definition is_header_row :: "string \<Rightarrow> bool" where
  "is_header_row line =
     (case split_whitespace line of [] \<Rightarrow> False | first # _ \<Rightarrow> startswith_hash first)"

definition is_data_row :: "string \<Rightarrow> bool" where
  "is_data_row line =
     (case split_whitespace line of [] \<Rightarrow> False | first # _ \<Rightarrow> \<not> startswith_hash first)"

definition header_sources :: "string \<Rightarrow> string list" where
  "header_sources line = tl (split_whitespace line)"

text \<open>
  The list of domain sources in force after some rows, from the list in force before them:
  that of the last header row, if there is one.
\<close>

fun current_sources :: "string list \<Rightarrow> string list \<Rightarrow> string list" where
  "current_sources sources [] = sources"
| "current_sources sources (row # rows) =
     current_sources (if is_header_row row then header_sources row else sources) rows"

text \<open>
  An \<^verbatim>\<open>id:count\<close> pair as the property reads it: the count is the integer after the
  last colon, the id is what stands before that colon, colons included.
\<close>

definition claimed_pair :: "string \<Rightarrow> (string \<times> int) option" where
  "claimed_pair item =
     (if CHR '':'' \<in> set item
      then map_option (Pair (rev (tl (dropWhile (\<lambda>c. c \<noteq> CHR '':'') (rev item)))))
             (py_int (rev (takeWhile (\<lambda>c. c \<noteq> CHR '':'') (rev item))))
      else None)"

text \<open>
  The items the code takes for pairs have exactly one colon. For a field made of such
  items, or of GO terms, what the field adds for its source: for GO every
  \<^verbatim>\<open>;\<close>-separated term with the count 1, for another source the pairs, a later pair
  of an id replacing an earlier one.
\<close>

definition one_colon_pair :: "string \<Rightarrow> (string \<times> int) option" where
  "one_colon_pair item =
     (if length (filter (\<lambda>c. c = CHR '':'') item) = 1
      then map_option (Pair (takeWhile (\<lambda>c. c \<noteq> CHR '':'') item))
             (py_int (tl (dropWhile (\<lambda>c. c \<noteq> CHR '':'') item)))
      else None)"

definition field_counter :: "string \<Rightarrow> string \<Rightarrow> domain_counter option" where
  "field_counter source field =
     (if source = ''GO''
      then Some (\<lambda>t. if t \<in> set (split_char CHR '';'' field) then Some 1 else None)
      else map_option (\<lambda>pairs. map_of (rev pairs))
             (those (map one_colon_pair (split_char CHR '';'' field))))"

definition row_fields :: "string \<Rightarrow> string list" where
  "row_fields row = tl (split_whitespace row)"

subsection \<open>Singletons\<close>

text \<open>The singleton clusters of the proteins not yet clustered, numbered from \<open>n\<close>.\<close>

definition singleton_clusters :: "nat \<Rightarrow> Protein list \<Rightarrow> Cluster list" where
  "singleton_clusters n ps =
     map (\<lambda>(k, p). new_Cluster (''singleton_'' @ str_nat k) [protein_id p])
       (enumerate n (filter (\<lambda>p. \<not> clustered p) ps))"

subsection \<open>Run summary\<close>

text \<open>A loaded summary without its two lists of protein ids.\<close>

definition brief_items :: "(string \<times> json) list \<Rightarrow> (string \<times> json) list" where
  "brief_items items =
     filter (\<lambda>(k, v). k \<noteq> ''included_proteins'' \<and> k \<noteq> ''excluded_proteins'') items"

subsection \<open>A small run\<close>

text \<open>
  The scenario of the spec, with a third cluster of an unknown proteome and a protein that
  no cluster names: three lines, five proteins, the proteomes A and B.
\<close>

definition scenario_fh :: "string list" where
  "scenario_fh = [''OG1: B.1 A.1 A.2'' @ [CHR 0x0A], ''OG2: A.3'' @ [CHR 0x0A], ''OG3: C.1 C.2'' @ [CHR 0x0A]]"

definition scenario_pc :: ProteinCollection where
  "scenario_pc =
     \<lparr>proteins_list =
        [new_Protein ''A.1'' ''A'' ''0'' ''0_0'', new_Protein ''A.2'' ''A'' ''0'' ''0_1'',
         new_Protein ''A.3'' ''A'' ''0'' ''0_2'', new_Protein ''B.1'' ''B'' ''1'' ''1_0'',
         new_Protein ''B.2'' ''B'' ''1'' ''1_1''],
      proteins_by_protein_id =
        map_of [(''A.1'', 0), (''A.2'', 1), (''A.3'', 2), (''B.1'', 3), (''B.2'', 4)],
      domain_sources = [], annotations = [], functional_annotation_parsed = False\<rparr>"

definition scenario_proteomes :: "string set" where
  "scenario_proteomes = {''A'', ''B''}"

text \<open>A session whose run is done, with a short summary.\<close>

definition scenario_session :: session where
  "scenario_session =
     \<lparr>session_dir = Some ''/results/s1'', status_file_exists = True, run_status = Some ''done'',
      summary_file = Loaded (JObj
        [(''total_clusters'', JInt 3), (''included_proteins'', JList [JStr ''B.1'']),
         (''filtered_clusters'', JInt 2), (''excluded_proteins'', JList [JStr ''C.1''])])\<rparr>"

text \<open>The collection of the small run after a header row naming three sources.\<close>

definition annotated_pc :: ProteinCollection where
  "annotated_pc = scenario_pc\<lparr>domain_sources := [''Pfam'', ''IPR'', ''GO'']\<rparr>"

section \<open>Facts about the string primitives and the cluster loop\<close>

lemma split_char_nonempty: "split_char sep s \<noteq> []"
  by (induction s) (auto split: list.splits)

lemma hd_split_char: "hd (split_char sep s) = takeWhile (\<lambda>c. c \<noteq> sep) s"
  using split_char_nonempty[of sep]
  by (induction s) (auto split: list.splits)

lemma filter_proteins_fst:
  "fst (filter_proteins avail pids (f, st)) = f @ filter (\<lambda>pid. proteome_prefix pid \<in> avail) pids"
  by (induction pids arbitrary: f st) (simp_all add: Let_def hd_split_char proteome_prefix_def)

lemma filter_proteins_included:
  "included_proteins (snd (filter_proteins avail pids (f, st))) =
     included_proteins st @ filter (\<lambda>pid. proteome_prefix pid \<in> avail) pids"
  by (induction pids arbitrary: f st) (simp_all add: Let_def hd_split_char proteome_prefix_def)

lemma filter_proteins_excluded:
  "excluded_proteins (snd (filter_proteins avail pids (f, st))) =
     excluded_proteins st @ filter (\<lambda>pid. proteome_prefix pid \<notin> avail) pids"
  by (induction pids arbitrary: f st) (simp_all add: Let_def hd_split_char proteome_prefix_def)

lemma filter_proteins_counts:
  "total_clusters (snd (filter_proteins avail pids (f, st))) = total_clusters st"
  "total_proteins (snd (filter_proteins avail pids (f, st))) = total_proteins st"
  "total_proteomes (snd (filter_proteins avail pids (f, st))) = total_proteomes st"
  "filtered_clusters (snd (filter_proteins avail pids (f, st))) = filtered_clusters st"
  "filtered_proteins (snd (filter_proteins avail pids (f, st))) = filtered_proteins st"
  by (induction pids arbitrary: f st; simp add: Let_def)+


lemma filter_proteins_eq:
  "filter_proteins avail pids (f, st) =
     (f @ filter (\<lambda>pid. proteome_prefix pid \<in> avail) pids, snd (filter_proteins avail pids (f, st)))"
  by (metis filter_proteins_fst prod.collapse)

lemma mark_clustered_append:
  "mark_clustered (xs @ ys) pc =
     (case mark_clustered xs pc of Inl e \<Rightarrow> Inl e | Inr pc' \<Rightarrow> mark_clustered ys pc')"
  by (induction xs arbitrary: pc) (auto split: option.splits)

lemma mark_clustered_dict:
  "mark_clustered xs pc = Inr pc' \<Longrightarrow> proteins_by_protein_id pc' = proteins_by_protein_id pc"
  by (induction xs arbitrary: pc) (auto split: option.splits)

lemma mark_clustered_length:
  "mark_clustered xs pc = Inr pc' \<Longrightarrow> length (proteins_list pc') = length (proteins_list pc)"
  by (induction xs arbitrary: pc) (auto split: option.splits)

lemma mark_clustered_returns:
  "(\<exists>pc'. mark_clustered xs pc = Inr pc') \<longleftrightarrow> set xs \<subseteq> dom (proteins_by_protein_id pc)"
proof (induction xs arbitrary: pc)
  case Nil
  show ?case by simp
next
  case (Cons x xs)
  show ?case
  proof (cases "proteins_by_protein_id pc x")
    case None
    then show ?thesis by (auto simp: dom_def)
  next
    case (Some i)
    then show ?thesis using Cons.IH [of "pc\<lparr>proteins_list := (proteins_list pc)[i := (proteins_list pc ! i)\<lparr>clustered := True\<rparr>]\<rparr>"]
      by (auto simp: dom_def)
  qed
qed

lemma mark_clustered_error:
  "mark_clustered xs pc = Inl e \<Longrightarrow> e = KeyError"
  by (induction xs arbitrary: pc) (auto split: option.splits)

lemma mark_clustered_flags:
  "mark_clustered xs pc = Inr pc' \<Longrightarrow> j < length (proteins_list pc) \<Longrightarrow>
     proteins_list pc' ! j =
       (if \<exists>x \<in> set xs. proteins_by_protein_id pc x = Some j
        then (proteins_list pc ! j)\<lparr>clustered := True\<rparr> else proteins_list pc ! j)"
proof (induction xs arbitrary: pc)
  case Nil
  then show ?case by simp
next
  case (Cons x xs)
  from Cons.prems obtain i where i: "proteins_by_protein_id pc x = Some i"
    by (auto split: option.splits)
  let ?pc = "pc\<lparr>proteins_list := (proteins_list pc)[i := (proteins_list pc ! i)\<lparr>clustered := True\<rparr>]\<rparr>"
  from Cons.prems i have m: "mark_clustered xs ?pc = Inr pc'" by simp
  have len: "j < length (proteins_list ?pc)" using Cons.prems by simp
  have d: "proteins_by_protein_id ?pc = proteins_by_protein_id pc" by simp
  show ?case
    using Cons.IH [OF m len] i Cons.prems(2) unfolding d
    by (cases "i = j") auto
qed

lemma process_line_Inr:
  assumes "process_line avail s line = Inr s'"
  shows "mark_clustered (included avail line) (proteinCollection s) = Inr (proteinCollection s')"
    and "cluster_list s' = cluster_list s @
           (if included avail line = [] then [] else [new_Cluster (line_cluster_id line) (included avail line)])"
    and "ofh s' = ofh s @
           (if included avail line = [] then []
            else [line_cluster_id line @ '': '' @ join '', '' (sort (included avail line)) @ [CHR 0x0A]])"
    and "total_clusters (stats s') = total_clusters (stats s) + 1"
    and "filtered_clusters (stats s') = filtered_clusters (stats s) + (if included avail line = [] then 0 else 1)"
    and "total_proteins (stats s') = total_proteins (stats s) + length (line_protein_ids line)"
    and "filtered_proteins (stats s') = filtered_proteins (stats s) + length (included avail line)"
    and "total_proteomes (stats s') = total_proteomes (stats s)"
    and "included_proteins (stats s') = included_proteins (stats s) @ included avail line"
    and "excluded_proteins (stats s') = excluded_proteins (stats s) @ excluded avail line"
  using assms
  by (auto simp: process_line_def Let_def split_def filter_proteins_fst filter_proteins_included
      filter_proteins_excluded filter_proteins_counts
      included_def excluded_def line_protein_ids_def line_cluster_id_def
      split: sum.splits if_splits)


lemma process_line_returns:
  "(\<exists>s'. process_line avail s line = Inr s') \<longleftrightarrow>
     (\<exists>pc'. mark_clustered (included avail line) (proteinCollection s) = Inr pc')"
  by (auto simp: process_line_def Let_def split_def filter_proteins_fst
      included_def line_protein_ids_def split: sum.splits)

lemma process_lines_Inr:
  assumes "process_lines avail s fh = Inr s'"
  shows "mark_clustered (concat (map (included avail) fh)) (proteinCollection s) = Inr (proteinCollection s')"
    and "cluster_list s' = cluster_list s @
           map (\<lambda>line. new_Cluster (line_cluster_id line) (included avail line)) (retained avail fh)"
    and "ofh s' = ofh s @
           map (\<lambda>line. filtered_line (line_cluster_id line) (sort (included avail line))) (retained avail fh)"
    and "total_clusters (stats s') = total_clusters (stats s) + length fh"
    and "filtered_clusters (stats s') = filtered_clusters (stats s) + length (retained avail fh)"
    and "total_proteins (stats s') = total_proteins (stats s) + length (concat (map line_protein_ids fh))"
    and "filtered_proteins (stats s') = filtered_proteins (stats s) + length (concat (map (included avail) fh))"
    and "total_proteomes (stats s') = total_proteomes (stats s)"
    and "included_proteins (stats s') = included_proteins (stats s) @ concat (map (included avail) fh)"
    and "excluded_proteins (stats s') = excluded_proteins (stats s) @ concat (map (excluded avail) fh)"
  using assms
proof (induction fh arbitrary: s)
  case Nil
  {
    case 1 then show ?case by simp next
    case 2 then show ?case by (simp add: retained_def) next
    case 3 then show ?case by (simp add: retained_def) next
    case 4 then show ?case by simp next
    case 5 then show ?case by (simp add: retained_def) next
    case 6 then show ?case by simp next
    case 7 then show ?case by simp next
    case 8 then show ?case by simp next
    case 9 then show ?case by simp next
    case 10 then show ?case by simp
  }
next
  case (Cons line fh)
  {
    case 1
    then obtain t where t: "process_line avail s line = Inr t" and r: "process_lines avail t fh = Inr s'"
      by (auto split: sum.splits)
    show ?case using process_line_Inr(1)[OF t] Cons.IH(1)[OF r]
      by (simp add: mark_clustered_append)
  next
    case 2
    then obtain t where t: "process_line avail s line = Inr t" and r: "process_lines avail t fh = Inr s'"
      by (auto split: sum.splits)
    show ?case using process_line_Inr(2)[OF t] Cons.IH(2)[OF r]
      by (simp add: retained_def)
  next
    case 3
    then obtain t where t: "process_line avail s line = Inr t" and r: "process_lines avail t fh = Inr s'"
      by (auto split: sum.splits)
    show ?case using process_line_Inr(3)[OF t] Cons.IH(3)[OF r]
      by (simp add: retained_def filtered_line_def)
  next
    case 4
    then obtain t where t: "process_line avail s line = Inr t" and r: "process_lines avail t fh = Inr s'"
      by (auto split: sum.splits)
    show ?case using process_line_Inr(4)[OF t] Cons.IH(4)[OF r] by simp
  next
    case 5
    then obtain t where t: "process_line avail s line = Inr t" and r: "process_lines avail t fh = Inr s'"
      by (auto split: sum.splits)
    show ?case using process_line_Inr(5)[OF t] Cons.IH(5)[OF r] by (simp add: retained_def)
  next
    case 6
    then obtain t where t: "process_line avail s line = Inr t" and r: "process_lines avail t fh = Inr s'"
      by (auto split: sum.splits)
    show ?case using process_line_Inr(6)[OF t] Cons.IH(6)[OF r] by simp
  next
    case 7
    then obtain t where t: "process_line avail s line = Inr t" and r: "process_lines avail t fh = Inr s'"
      by (auto split: sum.splits)
    show ?case using process_line_Inr(7)[OF t] Cons.IH(7)[OF r] by simp
  next
    case 8
    then obtain t where t: "process_line avail s line = Inr t" and r: "process_lines avail t fh = Inr s'"
      by (auto split: sum.splits)
    show ?case using process_line_Inr(8)[OF t] Cons.IH(8)[OF r] by simp
  next
    case 9
    then obtain t where t: "process_line avail s line = Inr t" and r: "process_lines avail t fh = Inr s'"
      by (auto split: sum.splits)
    show ?case using process_line_Inr(9)[OF t] Cons.IH(9)[OF r] by simp
  next
    case 10
    then obtain t where t: "process_line avail s line = Inr t" and r: "process_lines avail t fh = Inr s'"
      by (auto split: sum.splits)
    show ?case using process_line_Inr(10)[OF t] Cons.IH(10)[OF r] by simp
  }
qed

lemma process_lines_returns:
  "(\<exists>s'. process_lines avail s fh = Inr s') \<longleftrightarrow>
     (\<exists>pc'. mark_clustered (concat (map (included avail) fh)) (proteinCollection s) = Inr pc')"
proof (induction fh arbitrary: s)
  case Nil
  show ?case by simp
next
  case (Cons line fh)
  show ?case
  proof (cases "process_line avail s line")
    case (Inl e)
    with process_line_returns[of avail s line] show ?thesis
      by (auto simp: mark_clustered_append split: sum.splits)
  next
    case (Inr t)
    from process_line_Inr(1)[OF Inr] Cons.IH[of t] Inr show ?thesis
      by (simp add: mark_clustered_append)
  qed
qed


lemma parse_cluster_file_Inr:
  assumes "parse_cluster_file fh pc avail = Inr out"
  obtains s where
    "process_lines avail \<lparr>cluster_list = [], ofh = [], stats = initial_stats avail,
        proteinCollection = pc\<rparr> fh = Inr s"
    "clusters out = cluster_list s" "collection out = proteinCollection s"
    "orthogroups_filtered_txt out = ofh s"
    "final_stats out = (stats s)
       \<lparr>included_proteins_count := length (remdups (included_proteins (stats s))),
        excluded_proteins_count := length (remdups (excluded_proteins (stats s)))\<rparr>"
    "summary_json out = ordered_stats (final_stats out)"
  using assms by (auto simp: parse_cluster_file_def Let_def split: sum.splits)

lemma parse_cluster_file_returns:
  "(\<exists>out. parse_cluster_file fh pc avail = Inr out) \<longleftrightarrow>
     (\<forall>line \<in> set fh. set (included avail line) \<subseteq> dom (proteins_by_protein_id pc))"
proof -
  let ?s = "\<lparr>cluster_list = [], ofh = [], stats = initial_stats avail, proteinCollection = pc\<rparr>"
  have "(\<exists>out. parse_cluster_file fh pc avail = Inr out) \<longleftrightarrow> (\<exists>s'. process_lines avail ?s fh = Inr s')"
    by (auto simp: parse_cluster_file_def Let_def split: sum.splits)
  also have "\<dots> \<longleftrightarrow> set (concat (map (included avail) fh)) \<subseteq> dom (proteins_by_protein_id pc)"
    using process_lines_returns[of avail ?s fh] mark_clustered_returns[of "concat (map (included avail) fh)" pc]
    by simp
  also have "\<dots> \<longleftrightarrow> (\<forall>line \<in> set fh. set (included avail line) \<subseteq> dom (proteins_by_protein_id pc))"
    by auto
  finally show ?thesis .
qed

section \<open>The clusters built from the cluster file\<close>

lemma process_line_error: "process_line avail s line = Inl e \<Longrightarrow> e = KeyError"
  by (auto simp: process_line_def Let_def split_def split: if_splits sum.splits
      dest: mark_clustered_error)

lemma process_lines_error: "process_lines avail s fh = Inl e \<Longrightarrow> e = KeyError"
  by (induction fh arbitrary: s) (auto split: sum.splits dest: process_line_error)

lemma parse_cluster_file_error: "parse_cluster_file fh pc avail = Inl e \<Longrightarrow> e = KeyError"
  by (auto simp: parse_cluster_file_def Let_def split: sum.splits dest: process_lines_error)

text \<open>
  Claim C1, as amended. For every line of the cluster file the member ids are split by
  whether their proteome prefix is an available proteome. When every included member is a
  key of \<open>proteins_by_protein_id\<close> the run returns, and then a line without an included
  member leaves no trace but the counts of totals: no cluster, no line in the audit file,
  no protein marked, no increment of \<open>filtered_clusters\<close>; a line with an included member
  appends exactly one cluster, holding exactly the included members, and the flag
  \<open>clustered\<close> is set for exactly the proteins an included id names. When some included
  member is not a key, the run raises \<^verbatim>\<open>KeyError\<close> and returns no list.
\<close>

theorem parse_cluster_file_clusters:
  "((\<forall>line \<in> set fh. set (included avail line) \<subseteq> dom (proteins_by_protein_id pc)) \<longrightarrow>
      (\<exists>out. parse_cluster_file fh pc avail = Inr out \<and>
         clusters out =
           map (\<lambda>line. new_Cluster (line_cluster_id line) (included avail line))
             (retained avail fh) \<and>
         length (orthogroups_filtered_txt out) = length (retained avail fh) \<and>
         filtered_clusters (final_stats out) = length (retained avail fh) \<and>
         included_proteins (final_stats out) = concat (map (included avail) fh) \<and>
         excluded_proteins (final_stats out) = concat (map (excluded avail) fh) \<and>
         length (proteins_list (collection out)) = length (proteins_list pc) \<and>
         (\<forall>j < length (proteins_list pc).
            proteins_list (collection out) ! j =
              (if \<exists>line \<in> set fh. \<exists>pid \<in> set (included avail line).
                    proteins_by_protein_id pc pid = Some j
               then (proteins_list pc ! j)\<lparr>clustered := True\<rparr>
               else proteins_list pc ! j)))) \<and>
   (\<not> (\<forall>line \<in> set fh. set (included avail line) \<subseteq> dom (proteins_by_protein_id pc)) \<longrightarrow>
      parse_cluster_file fh pc avail = Inl KeyError)"
proof (intro conjI impI)
  assume "\<forall>line \<in> set fh. set (included avail line) \<subseteq> dom (proteins_by_protein_id pc)"
  then obtain out where out: "parse_cluster_file fh pc avail = Inr out"
    using parse_cluster_file_returns[of fh pc avail] by blast
  from parse_cluster_file_Inr[OF out] obtain s where
    s: "process_lines avail \<lparr>cluster_list = [], ofh = [], stats = initial_stats avail,
        proteinCollection = pc\<rparr> fh = Inr s"
    and c: "clusters out = cluster_list s" and col: "collection out = proteinCollection s"
    and tx: "orthogroups_filtered_txt out = ofh s"
    and st: "final_stats out = (stats s)
       \<lparr>included_proteins_count := length (remdups (included_proteins (stats s))),
        excluded_proteins_count := length (remdups (excluded_proteins (stats s)))\<rparr>"
    by blast
  note P = process_lines_Inr[OF s]
  have m: "mark_clustered (concat (map (included avail) fh)) pc = Inr (collection out)"
    using P(1) col by simp
  have 1: "clusters out =
       map (\<lambda>line. new_Cluster (line_cluster_id line) (included avail line)) (retained avail fh)"
    using P(2) c by simp
  have 2: "length (orthogroups_filtered_txt out) = length (retained avail fh)"
    using P(3) tx by simp
  have 3: "filtered_clusters (final_stats out) = length (retained avail fh)"
    using P(5) st by (simp add: initial_stats_def)
  have 4: "included_proteins (final_stats out) = concat (map (included avail) fh)"
    using P(9) st by (simp add: initial_stats_def)
  have 5: "excluded_proteins (final_stats out) = concat (map (excluded avail) fh)"
    using P(10) st by (simp add: initial_stats_def)
  have 6: "length (proteins_list (collection out)) = length (proteins_list pc)"
    using mark_clustered_length[OF m] .
  have 7: "\<forall>j < length (proteins_list pc).
        proteins_list (collection out) ! j =
          (if \<exists>line \<in> set fh. \<exists>pid \<in> set (included avail line).
                proteins_by_protein_id pc pid = Some j
           then (proteins_list pc ! j)\<lparr>clustered := True\<rparr>
           else proteins_list pc ! j)"
    using mark_clustered_flags[OF m] by auto
  from out 1 2 3 4 5 6 7
  show "\<exists>out. parse_cluster_file fh pc avail = Inr out \<and>
         clusters out =
           map (\<lambda>line. new_Cluster (line_cluster_id line) (included avail line))
             (retained avail fh) \<and>
         length (orthogroups_filtered_txt out) = length (retained avail fh) \<and>
         filtered_clusters (final_stats out) = length (retained avail fh) \<and>
         included_proteins (final_stats out) = concat (map (included avail) fh) \<and>
         excluded_proteins (final_stats out) = concat (map (excluded avail) fh) \<and>
         length (proteins_list (collection out)) = length (proteins_list pc) \<and>
         (\<forall>j < length (proteins_list pc).
            proteins_list (collection out) ! j =
              (if \<exists>line \<in> set fh. \<exists>pid \<in> set (included avail line).
                    proteins_by_protein_id pc pid = Some j
               then (proteins_list pc ! j)\<lparr>clustered := True\<rparr>
               else proteins_list pc ! j))"
    by blast
next
  assume "\<not> (\<forall>line \<in> set fh. set (included avail line) \<subseteq> dom (proteins_by_protein_id pc))"
  then have "\<not> (\<exists>out. parse_cluster_file fh pc avail = Inr out)"
    using parse_cluster_file_returns[of fh pc avail] by simp
  then obtain e where "parse_cluster_file fh pc avail = Inl e"
    by (cases "parse_cluster_file fh pc avail") auto
  with parse_cluster_file_error[of fh pc avail e]
  show "parse_cluster_file fh pc avail = Inl KeyError" by simp
qed

lemma scenario_included:
  "map (included scenario_proteomes) scenario_fh = [[''B.1'', ''A.1'', ''A.2''], [''A.3''], []]"
  by (simp add: scenario_fh_def scenario_proteomes_def included_def line_protein_ids_def
      rstrip_newline_def proteome_prefix_def)

lemma unknown_member_included:
  "included scenario_proteomes (''OG7: A.7'' @ [CHR 0x0A]) = [''A.7'']"
  by (simp add: scenario_proteomes_def included_def line_protein_ids_def
      rstrip_newline_def proteome_prefix_def)

theorem parse_cluster_file_clusters_witness:
  "(\<exists>out. parse_cluster_file scenario_fh scenario_pc scenario_proteomes = Inr out \<and>
      clusters out = [new_Cluster ''OG1'' [''B.1'', ''A.1'', ''A.2''], new_Cluster ''OG2'' [''A.3'']] \<and>
      map clustered (proteins_list (collection out)) = [True, True, True, True, False]) \<and>
   parse_cluster_file (scenario_fh @ [''OG7: A.7'' @ [CHR 0x0A]]) scenario_pc scenario_proteomes =
     Inl KeyError"
proof -
  have "\<forall>ids \<in> set (map (included scenario_proteomes) scenario_fh).
      set ids \<subseteq> dom (proteins_by_protein_id scenario_pc)"
    unfolding scenario_included by (simp add: scenario_pc_def)
  then have h: "\<forall>line \<in> set scenario_fh.
      set (included scenario_proteomes line) \<subseteq> dom (proteins_by_protein_id scenario_pc)"
    by simp
  from parse_cluster_file_clusters[of scenario_fh scenario_proteomes scenario_pc] h obtain out where
    o: "parse_cluster_file scenario_fh scenario_pc scenario_proteomes = Inr out" by blast
  have e1: "clusters out = [new_Cluster ''OG1'' [''B.1'', ''A.1'', ''A.2''], new_Cluster ''OG2'' [''A.3'']]"
    and e2: "map clustered (proteins_list (collection out)) = [True, True, True, True, False]"
    using o
    by (auto simp add: parse_cluster_file_def process_line_def Let_def scenario_fh_def scenario_pc_def
        scenario_proteomes_def rstrip_newline_def remove_char_def new_Protein_def new_Cluster_def)
  have "\<not> set (included scenario_proteomes (''OG7: A.7'' @ [CHR 0x0A])) \<subseteq>
      dom (proteins_by_protein_id scenario_pc)"
    unfolding unknown_member_included by (simp add: scenario_pc_def dom_def)
  then have n: "\<not> (\<forall>line \<in> set (scenario_fh @ [''OG7: A.7'' @ [CHR 0x0A]]).
      set (included scenario_proteomes line) \<subseteq> dom (proteins_by_protein_id scenario_pc))"
    by simp
  from parse_cluster_file_clusters[of "scenario_fh @ [''OG7: A.7'' @ [CHR 0x0A]]"
      scenario_proteomes scenario_pc] n
  have k: "parse_cluster_file (scenario_fh @ [''OG7: A.7'' @ [CHR 0x0A]]) scenario_pc
      scenario_proteomes = Inl KeyError" by blast
  show ?thesis by (intro conjI exI[of _ out]) (fact o e1 e2 k)+
qed

text \<open>
  Claim C1 as stated fails: the only member of the line is included, its proteome being
  available, but it is no key of \<open>proteins_by_protein_id\<close>; the run raises
  \<^verbatim>\<open>KeyError\<close> at the lookup of line 125 and no cluster reaches a result list.
\<close>

theorem parse_cluster_file_clusters_counterexample:
  "included scenario_proteomes (''OG7: A.7'' @ [CHR 0x0A]) = [''A.7''] \<and>
   parse_cluster_file [''OG7: A.7'' @ [CHR 0x0A]] scenario_pc scenario_proteomes = Inl KeyError"
  by (simp add: parse_cluster_file_def process_line_def Let_def scenario_pc_def
      scenario_proteomes_def rstrip_newline_def remove_char_def included_def line_protein_ids_def
      proteome_prefix_def)

section \<open>The statistics of the cluster file\<close>

text \<open>
  Claim C2. After a run over any cluster file, \<open>total_clusters\<close> is
  \<open>filtered_clusters\<close> plus the number of lines without an included member: every line
  increments \<open>total_clusters\<close>, and exactly the lines with an included member increment
  \<open>filtered_clusters\<close>.
\<close>

theorem parse_cluster_file_cluster_counts:
  assumes "parse_cluster_file fh pc avail = Inr out"
  shows "total_clusters (final_stats out) =
           filtered_clusters (final_stats out) + length (filter (\<lambda>line. included avail line = []) fh) \<and>
         total_clusters (final_stats out) = length fh \<and>
         filtered_clusters (final_stats out) = length (filter (\<lambda>line. included avail line \<noteq> []) fh)"
proof -
  from parse_cluster_file_Inr[OF assms] obtain s where
    s: "process_lines avail \<lparr>cluster_list = [], ofh = [], stats = initial_stats avail,
        proteinCollection = pc\<rparr> fh = Inr s"
    and st: "final_stats out = (stats s)
       \<lparr>included_proteins_count := length (remdups (included_proteins (stats s))),
        excluded_proteins_count := length (remdups (excluded_proteins (stats s)))\<rparr>"
    by blast
  note P = process_lines_Inr[OF s]
  have t: "total_clusters (final_stats out) = length fh"
    using P(4) st by (simp add: initial_stats_def)
  have f: "filtered_clusters (final_stats out) = length (filter (\<lambda>line. included avail line \<noteq> []) fh)"
    using P(5) st by (simp add: initial_stats_def retained_def)
  have "length fh = length (filter (\<lambda>line. included avail line \<noteq> []) fh) +
      length (filter (\<lambda>line. included avail line = []) fh)"
    using sum_length_filter_compl[of "\<lambda>line. included avail line \<noteq> []" fh] by simp
  with t f show ?thesis by simp
qed

theorem parse_cluster_file_cluster_counts_witness:
  "\<exists>out. parse_cluster_file scenario_fh scenario_pc scenario_proteomes = Inr out \<and>
     total_clusters (final_stats out) = 3 \<and> filtered_clusters (final_stats out) = 2 \<and>
     length (filter (\<lambda>line. included scenario_proteomes line = []) scenario_fh) = 1"
proof -
  obtain out where o: "parse_cluster_file scenario_fh scenario_pc scenario_proteomes = Inr out"
    by (auto simp add: parse_cluster_file_def process_line_def Let_def scenario_fh_def scenario_pc_def
        scenario_proteomes_def rstrip_newline_def remove_char_def new_Protein_def new_Cluster_def)
  have n: "length (filter (\<lambda>line. included scenario_proteomes line = []) scenario_fh) = 1"
    and m: "length (filter (\<lambda>line. included scenario_proteomes line \<noteq> []) scenario_fh) = 2"
    and l: "length scenario_fh = 3"
    by (simp_all add: scenario_fh_def scenario_proteomes_def included_def line_protein_ids_def
      rstrip_newline_def proteome_prefix_def)
  from parse_cluster_file_cluster_counts[OF o] n m l
  have "total_clusters (final_stats out) = 3" "filtered_clusters (final_stats out) = 2" by simp_all
  with o n show ?thesis by (intro exI[of _ out]) simp
qed

lemma included_excluded_partition:
  "mset (included avail line) + mset (excluded avail line) = mset (line_protein_ids line)"
  by (simp add: included_def excluded_def)

text \<open>
  Claim C3. Every occurrence of a protein id in the cluster file is appended to exactly one
  of \<open>included_proteins\<close> and \<open>excluded_proteins\<close>, by the membership of its proteome
  prefix: the two lists together hold the occurrences of the file, each once, and their
  lengths add up to \<open>total_proteins\<close>.
\<close>

theorem parse_cluster_file_protein_partition:
  assumes "parse_cluster_file fh pc avail = Inr out"
  shows "length (included_proteins (final_stats out)) + length (excluded_proteins (final_stats out)) =
           total_proteins (final_stats out) \<and>
         mset (included_proteins (final_stats out)) + mset (excluded_proteins (final_stats out)) =
           mset (concat (map line_protein_ids fh)) \<and>
         included_proteins (final_stats out) = concat (map (included avail) fh) \<and>
         excluded_proteins (final_stats out) = concat (map (excluded avail) fh) \<and>
         total_proteins (final_stats out) = length (concat (map line_protein_ids fh))"
proof -
  from parse_cluster_file_Inr[OF assms] obtain s where
    s: "process_lines avail \<lparr>cluster_list = [], ofh = [], stats = initial_stats avail,
        proteinCollection = pc\<rparr> fh = Inr s"
    and st: "final_stats out = (stats s)
       \<lparr>included_proteins_count := length (remdups (included_proteins (stats s))),
        excluded_proteins_count := length (remdups (excluded_proteins (stats s)))\<rparr>"
    by blast
  note P = process_lines_Inr[OF s]
  have i: "included_proteins (final_stats out) = concat (map (included avail) fh)"
    using P(9) st by (simp add: initial_stats_def)
  have e: "excluded_proteins (final_stats out) = concat (map (excluded avail) fh)"
    using P(10) st by (simp add: initial_stats_def)
  have t: "total_proteins (final_stats out) = length (concat (map line_protein_ids fh))"
    using P(6) st by (simp add: initial_stats_def)
  have m: "mset (concat (map (included avail) fh)) + mset (concat (map (excluded avail) fh)) =
      mset (concat (map line_protein_ids fh))"
  proof (induction fh)
    case Nil
    show ?case by simp
  next
    case (Cons line fh)
    have "mset (concat (map (included avail) (line # fh))) +
        mset (concat (map (excluded avail) (line # fh))) =
        (mset (included avail line) + mset (excluded avail line)) +
        (mset (concat (map (included avail) fh)) + mset (concat (map (excluded avail) fh)))"
      by (simp add: ac_simps)
    also have "\<dots> = mset (line_protein_ids line) + mset (concat (map line_protein_ids fh))"
      unfolding Cons.IH included_excluded_partition ..
    finally show ?case by simp
  qed
  have "length (concat (map (included avail) fh)) + length (concat (map (excluded avail) fh)) =
      length (concat (map line_protein_ids fh))"
    using arg_cong[OF m, of size] by simp
  with i e t m show ?thesis by simp
qed


theorem parse_cluster_file_protein_partition_witness:
  "\<exists>out. parse_cluster_file scenario_fh scenario_pc scenario_proteomes = Inr out \<and>
     included_proteins (final_stats out) = [''B.1'', ''A.1'', ''A.2'', ''A.3''] \<and>
     excluded_proteins (final_stats out) = [''C.1'', ''C.2''] \<and>
     total_proteins (final_stats out) = 6"
proof -
  obtain out where o: "parse_cluster_file scenario_fh scenario_pc scenario_proteomes = Inr out"
    by (auto simp add: parse_cluster_file_def process_line_def Let_def scenario_fh_def scenario_pc_def
        scenario_proteomes_def rstrip_newline_def remove_char_def new_Protein_def new_Cluster_def)
  have i: "concat (map (included scenario_proteomes) scenario_fh) = [''B.1'', ''A.1'', ''A.2'', ''A.3'']"
    and e: "concat (map (excluded scenario_proteomes) scenario_fh) = [''C.1'', ''C.2'']"
    by (simp_all add: scenario_fh_def scenario_proteomes_def included_def excluded_def
      line_protein_ids_def rstrip_newline_def proteome_prefix_def)
  note T = parse_cluster_file_protein_partition[OF o]
  from T i e have a: "included_proteins (final_stats out) = [''B.1'', ''A.1'', ''A.2'', ''A.3'']"
    and b: "excluded_proteins (final_stats out) = [''C.1'', ''C.2'']" by simp_all
  from conjunct1[OF T] a b have c: "total_proteins (final_stats out) = 6" by simp
  from o a b c show ?thesis by (intro exI[of _ out]) simp
qed


lemma process_line_stats:
  assumes "process_line avail s line = Inr s'" "process_line avail t line = Inr t'"
    and "stats s = stats t"
  shows "stats s' = stats t'"
  using assms
  by (auto simp: process_line_def Let_def split_def split: sum.splits if_splits)

lemma process_lines_stats:
  assumes "process_lines avail s fh = Inr s'" "process_lines avail t fh = Inr t'"
    and "stats s = stats t"
  shows "stats s' = stats t'"
  using assms
proof (induction fh arbitrary: s t)
  case Nil
  then show ?case by simp
next
  case (Cons line fh)
  from Cons.prems(1) obtain s1 where s1: "process_line avail s line = Inr s1"
    and r1: "process_lines avail s1 fh = Inr s'" by (auto split: sum.splits)
  from Cons.prems(2) obtain t1 where t1: "process_line avail t line = Inr t1"
    and r2: "process_lines avail t1 fh = Inr t'" by (auto split: sum.splits)
  from process_line_stats[OF s1 t1 Cons.prems(3)] Cons.IH[OF r1 r2] show ?case by simp
qed

text \<open>
  Claim C9. The document written to \<^verbatim>\<open>summary.json\<close> is a function of the lines of the
  cluster file and of the set of available proteomes alone: two runs on them agree on it,
  whatever the state of the protein collection. Its keys come in the fixed order of
  \<^verbatim>\<open>ordered_stats\<close>.
\<close>

theorem parse_cluster_file_summary_deterministic:
  assumes "parse_cluster_file fh pc avail = Inr out"
    and "parse_cluster_file fh pc' avail = Inr out'"
  shows "summary_json out = summary_json out' \<and>
         object_keys (summary_json out) =
           [''total_clusters'', ''total_proteins'', ''total_proteomes'', ''filtered_clusters'',
            ''filtered_proteins'', ''included_proteins_count'', ''excluded_proteins_count'',
            ''included_proteomes'', ''excluded_proteomes'', ''included_proteins'',
            ''excluded_proteins'']"
proof -
  from parse_cluster_file_Inr[OF assms(1)] obtain s where
    s: "process_lines avail \<lparr>cluster_list = [], ofh = [], stats = initial_stats avail,
        proteinCollection = pc\<rparr> fh = Inr s"
    and st: "final_stats out = (stats s)
       \<lparr>included_proteins_count := length (remdups (included_proteins (stats s))),
        excluded_proteins_count := length (remdups (excluded_proteins (stats s)))\<rparr>"
    and j: "summary_json out = ordered_stats (final_stats out)"
    by blast
  from parse_cluster_file_Inr[OF assms(2)] obtain s' where
    s': "process_lines avail \<lparr>cluster_list = [], ofh = [], stats = initial_stats avail,
        proteinCollection = pc'\<rparr> fh = Inr s'"
    and st': "final_stats out' = (stats s')
       \<lparr>included_proteins_count := length (remdups (included_proteins (stats s'))),
        excluded_proteins_count := length (remdups (excluded_proteins (stats s')))\<rparr>"
    and j': "summary_json out' = ordered_stats (final_stats out')"
    by blast
  have "stats s = stats s'"
    using process_lines_stats[OF s s'] by simp
  with st st' j j' have "summary_json out = summary_json out'" by simp
  moreover have "object_keys (summary_json out) =
           [''total_clusters'', ''total_proteins'', ''total_proteomes'', ''filtered_clusters'',
            ''filtered_proteins'', ''included_proteins_count'', ''excluded_proteins_count'',
            ''included_proteomes'', ''excluded_proteomes'', ''included_proteins'',
            ''excluded_proteins'']"
    unfolding j by (simp add: ordered_stats_def object_keys_def)
  ultimately show ?thesis by simp
qed

theorem parse_cluster_file_summary_deterministic_witness:
  "\<exists>out out'. parse_cluster_file scenario_fh scenario_pc scenario_proteomes = Inr out \<and>
     parse_cluster_file scenario_fh (scenario_pc\<lparr>domain_sources := [''Pfam'']\<rparr>) scenario_proteomes =
       Inr out' \<and>
     summary_json out = summary_json out' \<and>
     summary_json out' = JObj
       [(''total_clusters'', JInt 3), (''total_proteins'', JInt 6), (''total_proteomes'', JInt 2),
        (''filtered_clusters'', JInt 2), (''filtered_proteins'', JInt 4),
        (''included_proteins_count'', JInt 4), (''excluded_proteins_count'', JInt 2),
        (''included_proteomes'', JObj [(''B'', JInt 1), (''A'', JInt 3)]),
        (''excluded_proteomes'', JObj [(''C'', JInt 2)]),
        (''included_proteins'', JList [JStr ''B.1'', JStr ''A.1'', JStr ''A.2'', JStr ''A.3'']),
        (''excluded_proteins'', JList [JStr ''C.1'', JStr ''C.2''])]"
proof -
  obtain out where o: "parse_cluster_file scenario_fh scenario_pc scenario_proteomes = Inr out"
    by (auto simp add: parse_cluster_file_def process_line_def Let_def scenario_fh_def scenario_pc_def
        scenario_proteomes_def rstrip_newline_def remove_char_def new_Protein_def new_Cluster_def)
  obtain out' where o': "parse_cluster_file scenario_fh (scenario_pc\<lparr>domain_sources := [''Pfam'']\<rparr>)
      scenario_proteomes = Inr out'"
    by (auto simp add: parse_cluster_file_def process_line_def Let_def scenario_fh_def scenario_pc_def
        scenario_proteomes_def rstrip_newline_def remove_char_def new_Protein_def new_Cluster_def)
  from parse_cluster_file_summary_deterministic[OF o o']
  have e: "summary_json out = summary_json out'" by simp
  have v: "summary_json out' = JObj
       [(''total_clusters'', JInt 3), (''total_proteins'', JInt 6), (''total_proteomes'', JInt 2),
        (''filtered_clusters'', JInt 2), (''filtered_proteins'', JInt 4),
        (''included_proteins_count'', JInt 4), (''excluded_proteins_count'', JInt 2),
        (''included_proteomes'', JObj [(''B'', JInt 1), (''A'', JInt 3)]),
        (''excluded_proteomes'', JObj [(''C'', JInt 2)]),
        (''included_proteins'', JList [JStr ''B.1'', JStr ''A.1'', JStr ''A.2'', JStr ''A.3'']),
        (''excluded_proteins'', JList [JStr ''C.1'', JStr ''C.2''])]"
    using o'
    by (auto simp add: parse_cluster_file_def process_line_def Let_def scenario_fh_def scenario_pc_def
        scenario_proteomes_def rstrip_newline_def remove_char_def new_Protein_def new_Cluster_def
        ordered_stats_def initial_stats_def)
  show ?thesis by (intro exI[of _ out] exI[of _ out'] conjI) (fact o o' e v)+
qed

section \<open>The audit file\<close>

lemma set_split_char: "w \<in> set (split_char sep s) \<Longrightarrow> set w \<subseteq> set s"
proof (induction s arbitrary: w)
  case Nil
  then show ?case by simp
next
  case (Cons c cs)
  obtain a rest where ar: "split_char sep cs = a # rest"
    using split_char_nonempty[of sep cs] by (cases "split_char sep cs") auto
  have a: "set a \<subseteq> set cs" using Cons.IH[of a] ar by simp
  have r: "\<And>v. v \<in> set rest \<Longrightarrow> set v \<subseteq> set cs" using Cons.IH ar by simp
  show ?case
  proof (cases "c = sep")
    case True
    with Cons.prems ar a r show ?thesis by auto
  next
    case False
    with Cons.prems ar have "w = c # a \<or> w \<in> set rest" by simp
    with a r show ?thesis by auto
  qed
qed

lemma set_join: "set (join sep xs) \<subseteq> set sep \<union> \<Union> (set ` set xs)"
  by (induction sep xs rule: join.induct) auto

lemma line_cluster_id_chars: "set (line_cluster_id line) \<subseteq> set (rstrip_newline line)"
proof -
  have "hd (split_char CHR '' '' (rstrip_newline line)) \<in> set (split_char CHR '' '' (rstrip_newline line))"
    using split_char_nonempty by simp
  from set_split_char[OF this] show ?thesis
    by (auto simp: line_cluster_id_def remove_char_def)
qed

lemma included_chars: "pid \<in> set (included avail line) \<Longrightarrow> set pid \<subseteq> set (rstrip_newline line)"
proof -
  assume "pid \<in> set (included avail line)"
  then have "pid \<in> set (tl (split_char CHR '' '' (rstrip_newline line)))"
    by (simp add: included_def line_protein_ids_def)
  then have "pid \<in> set (split_char CHR '' '' (rstrip_newline line))"
    by (rule list.set_sel(2)[rotated]) (simp add: split_char_nonempty)
  from set_split_char[OF this] show ?thesis .
qed

lemma filtered_line_one_newline:
  assumes "CHR 0x0A \<notin> set cid" "\<forall>pid \<in> set pids. CHR 0x0A \<notin> set pid"
  shows "length (filter (\<lambda>c. c = CHR 0x0A) (filtered_line cid pids)) = 1"
proof -
  have "CHR 0x0A \<notin> set (join '', '' pids)"
    using set_join[of "'', ''" pids] assms(2) by auto
  with assms(1) show ?thesis
    by (auto simp: filtered_line_def filter_empty_conv)
qed

text \<open>
  Claim C8. \<^verbatim>\<open>orthogroups.filtered.txt\<close> receives one write per retained cluster, in the
  order of the clusters: the cluster id and the included ids in ascending order of strings.
  When no line of the input holds a line feed before its end, as the lines read from a file
  do not, each write is one line of the file.
\<close>

theorem parse_cluster_file_filtered_file:
  assumes "parse_cluster_file fh pc avail = Inr out"
  shows "orthogroups_filtered_txt out =
           map (\<lambda>c. filtered_line (cluster_id c) (sort (protein_ids c))) (clusters out) \<and>
         (\<forall>c \<in> set (clusters out).
            sorted (sort (protein_ids c)) \<and> mset (sort (protein_ids c)) = mset (protein_ids c)) \<and>
         clusters out =
           map (\<lambda>line. new_Cluster (line_cluster_id line) (included avail line)) (retained avail fh) \<and>
         ((\<forall>line \<in> set fh. CHR 0x0A \<notin> set (rstrip_newline line)) \<longrightarrow>
            (\<forall>chunk \<in> set (orthogroups_filtered_txt out).
               length (filter (\<lambda>c. c = CHR 0x0A) chunk) = 1))"
proof -
  from parse_cluster_file_Inr[OF assms] obtain s where
    s: "process_lines avail \<lparr>cluster_list = [], ofh = [], stats = initial_stats avail,
        proteinCollection = pc\<rparr> fh = Inr s"
    and c: "clusters out = cluster_list s"
    and tx: "orthogroups_filtered_txt out = ofh s"
    by blast
  note P = process_lines_Inr[OF s]
  have 1: "clusters out =
           map (\<lambda>line. new_Cluster (line_cluster_id line) (included avail line)) (retained avail fh)"
    using P(2) c by simp
  have 2: "orthogroups_filtered_txt out =
      map (\<lambda>line. filtered_line (line_cluster_id line) (sort (included avail line))) (retained avail fh)"
    using P(3) tx by simp
  have 3: "orthogroups_filtered_txt out =
           map (\<lambda>c. filtered_line (cluster_id c) (sort (protein_ids c))) (clusters out)"
    unfolding 1 2 by (simp add: new_Cluster_def)
  have 4: "\<forall>c \<in> set (clusters out).
            sorted (sort (protein_ids c)) \<and> mset (sort (protein_ids c)) = mset (protein_ids c)"
    by simp
  have 5: "(\<forall>line \<in> set fh. CHR 0x0A \<notin> set (rstrip_newline line)) \<longrightarrow>
            (\<forall>chunk \<in> set (orthogroups_filtered_txt out).
               length (filter (\<lambda>c. c = CHR 0x0A) chunk) = 1)"
  proof (intro impI ballI)
    fix chunk
    assume nl: "\<forall>line \<in> set fh. CHR 0x0A \<notin> set (rstrip_newline line)"
      and "chunk \<in> set (orthogroups_filtered_txt out)"
    then obtain line where l: "line \<in> set fh"
      and ch: "chunk = filtered_line (line_cluster_id line) (sort (included avail line))"
      unfolding 2 by (auto simp: retained_def)
    from nl l have n: "CHR 0x0A \<notin> set (rstrip_newline line)" by blast
    have a: "CHR 0x0A \<notin> set (line_cluster_id line)"
      using n line_cluster_id_chars[of line] by blast
    have b: "\<forall>pid \<in> set (sort (included avail line)). CHR 0x0A \<notin> set pid"
      using n included_chars[of _ avail line] by auto
    show "length (filter (\<lambda>c. c = CHR 0x0A) chunk) = 1"
      unfolding ch by (rule filtered_line_one_newline[OF a b])
  qed
  from 1 3 4 5 show ?thesis by blast
qed


theorem parse_cluster_file_filtered_file_witness:
  "\<exists>out. parse_cluster_file scenario_fh scenario_pc scenario_proteomes = Inr out \<and>
     map protein_ids (clusters out) = [[''B.1'', ''A.1'', ''A.2''], [''A.3'']] \<and>
     orthogroups_filtered_txt out =
       [''OG1: A.1, A.2, B.1'' @ [CHR 0x0A], ''OG2: A.3'' @ [CHR 0x0A]]"
proof -
  obtain out where o: "parse_cluster_file scenario_fh scenario_pc scenario_proteomes = Inr out"
    by (auto simp add: parse_cluster_file_def process_line_def Let_def scenario_fh_def scenario_pc_def
        scenario_proteomes_def rstrip_newline_def remove_char_def new_Protein_def new_Cluster_def)
  have r: "retained scenario_proteomes scenario_fh =
      [''OG1: B.1 A.1 A.2'' @ [CHR 0x0A], ''OG2: A.3'' @ [CHR 0x0A]]"
    by (simp add: retained_def scenario_fh_def scenario_proteomes_def included_def
      line_protein_ids_def rstrip_newline_def proteome_prefix_def)
  note T = parse_cluster_file_filtered_file[OF o]
  from T have c: "map protein_ids (clusters out) = [[''B.1'', ''A.1'', ''A.2''], [''A.3'']]"
    unfolding r
    by (simp add: scenario_proteomes_def included_def new_Cluster_def
      line_protein_ids_def rstrip_newline_def proteome_prefix_def)
  from T have i: "map cluster_id (clusters out) = [''OG1'', ''OG2'']"
    unfolding r
    by (simp add: line_cluster_id_def new_Cluster_def rstrip_newline_def remove_char_def)
  from conjunct1[OF T] c i
  have f: "orthogroups_filtered_txt out =
       [''OG1: A.1, A.2, B.1'' @ [CHR 0x0A], ''OG2: A.3'' @ [CHR 0x0A]]"
    by (auto simp: filtered_line_def map_eq_Cons_conv)
  show ?thesis by (intro exI[of _ out] conjI) (fact o c f)+
qed


section \<open>Singleton clusters\<close>

lemma singletons_loop_eq:
  "singletons_loop ps (cl, n) =
     (cl @ singleton_clusters n ps, n + length (filter (\<lambda>p. \<not> clustered p) ps))"
  by (induction ps arbitrary: cl n) (simp_all add: singleton_clusters_def)

lemma str_nat_nonempty: "str_nat n \<noteq> []"
  by (subst str_nat.simps) simp

lemma str_nat_last: "last (str_nat n) = digit_char (n mod 10)"
  by (subst str_nat.simps) simp

lemma str_nat_butlast: "butlast (str_nat n) = (if n < 10 then [] else str_nat (n div 10))"
  by (subst str_nat.simps) simp

lemma digit_char_inj: "a < 10 \<Longrightarrow> b < 10 \<Longrightarrow> digit_char a = digit_char b \<Longrightarrow> a = b"
proof -
  assume a: "a < 10" and b: "b < 10" and e: "digit_char a = digit_char b"
  from e have "of_char (char_of (48 + a) :: char) = (of_char (char_of (48 + b) :: char) :: nat)"
    by (simp add: digit_char_def)
  with a b show ?thesis by simp
qed

lemma str_nat_inj: "str_nat m = str_nat n \<Longrightarrow> m = n"
proof (induction m arbitrary: n rule: less_induct)
  case (less m)
  from less.prems have l: "digit_char (m mod 10) = digit_char (n mod 10)"
    using str_nat_last[of m] str_nat_last[of n] by simp
  then have d: "m mod 10 = n mod 10" by (intro digit_char_inj) simp_all
  from less.prems have b: "(if m < 10 then [] else str_nat (m div 10)) =
      (if n < 10 then [] else str_nat (n div 10))"
    using str_nat_butlast[of m] str_nat_butlast[of n] by simp
  show ?case
  proof (cases "m < 10")
    case True
    with b str_nat_nonempty[of "n div 10"] have "n < 10" by (auto split: if_splits)
    with True d show ?thesis by simp
  next
    case False
    with b str_nat_nonempty[of "m div 10"] have n: "\<not> n < 10" by (auto split: if_splits)
    with False b have "str_nat (m div 10) = str_nat (n div 10)" by simp
    moreover from False have "m div 10 < m" by simp
    ultimately have "m div 10 = n div 10" using less.IH by blast
    with d show ?thesis by (metis div_mult_mod_eq)
  qed
qed

lemma map_enumerate_index:
  "map (\<lambda>(k, p). f k) (enumerate n xs) = map f [n ..< n + length xs]"
proof -
  have "map (\<lambda>(k, p). f k) (enumerate n xs) = map (f \<circ> fst) (enumerate n xs)"
    by (simp add: split_def comp_def)
  also have "\<dots> = map f (map fst (enumerate n xs))" by (simp only: map_map)
  also have "\<dots> = map f [n ..< n + length xs]" by (simp only: map_fst_enumerate)
  finally show ?thesis .
qed

lemma singleton_clusters_ids:
  "map cluster_id (singleton_clusters n ps) =
     map (\<lambda>k. ''singleton_'' @ str_nat k) [n ..< n + length (filter (\<lambda>p. \<not> clustered p) ps)]"
proof -
  have "map cluster_id (singleton_clusters n ps) =
      map (\<lambda>(k, p). ''singleton_'' @ str_nat k) (enumerate n (filter (\<lambda>p. \<not> clustered p) ps))"
    by (simp add: singleton_clusters_def new_Cluster_def split_def)
  then show ?thesis by (simp only: map_enumerate_index)
qed

lemma singleton_clusters_distinct: "distinct (map cluster_id (singleton_clusters n ps))"
  unfolding singleton_clusters_ids
  by (simp add: distinct_map inj_on_def str_nat_inj)

lemma singleton_clusters_members:
  "map protein_ids (singleton_clusters n ps) =
     map (\<lambda>p. [protein_id p]) (filter (\<lambda>p. \<not> clustered p) ps)"
proof -
  have "map protein_ids (singleton_clusters n ps) =
      map ((\<lambda>p. [protein_id p]) \<circ> snd) (enumerate n (filter (\<lambda>p. \<not> clustered p) ps))"
    by (simp add: singleton_clusters_def new_Cluster_def split_def comp_def)
  then show ?thesis by (simp flip: map_map)
qed

text \<open>
  Claim C4. \<^verbatim>\<open>get_singletons\<close> appends, for every protein of \<^verbatim>\<open>proteins_list\<close>
  whose flag \<open>clustered\<close> is unset and in the order of that list, one cluster
  \<^verbatim>\<open>singleton_<n>\<close> holding that protein alone, with n = 0, 1, 2, ...; it returns the
  number of clusters appended. The clusters appended do not depend on the list they are
  appended to, so equal protein collections give equal singleton ids, and the ids differ
  from one another. \<^verbatim>\<open>build_ClusterCollection\<close> calls it, when
  \<^verbatim>\<open>infer_singletons\<close> is set, on the collection and the list that
  \<^verbatim>\<open>parse_cluster_file\<close> leaves.
\<close>

theorem get_singletons_result:
  "get_singletons pc cl =
     (cl @ map (\<lambda>(n, p). new_Cluster (''singleton_'' @ str_nat n) [protein_id p])
             (enumerate 0 (filter (\<lambda>p. \<not> clustered p) (proteins_list pc))),
      length (filter (\<lambda>p. \<not> clustered p) (proteins_list pc))) \<and>
   map cluster_id (drop (length cl) (fst (get_singletons pc cl))) =
     map (\<lambda>n. ''singleton_'' @ str_nat n)
       [0 ..< length (filter (\<lambda>p. \<not> clustered p) (proteins_list pc))] \<and>
   map protein_ids (drop (length cl) (fst (get_singletons pc cl))) =
     map (\<lambda>p. [protein_id p]) (filter (\<lambda>p. \<not> clustered p) (proteins_list pc)) \<and>
   distinct (map cluster_id (drop (length cl) (fst (get_singletons pc cl)))) \<and>
   drop (length cl) (fst (get_singletons pc cl)) = fst (get_singletons pc []) \<and>
   build_ClusterCollection fh pc (Some True) avail =
     (case parse_cluster_file fh pc avail of
        Inl e \<Rightarrow> Inl e
      | Inr out \<Rightarrow> Inr (get_singletons (collection out) (clusters out)))"
proof -
  have g: "\<And>cl. get_singletons pc cl =
      (cl @ singleton_clusters 0 (proteins_list pc),
       length (filter (\<lambda>p. \<not> clustered p) (proteins_list pc)))"
    by (simp add: get_singletons_def singletons_loop_eq)
  have d: "\<And>cl. drop (length cl) (fst (get_singletons pc cl)) = singleton_clusters 0 (proteins_list pc)"
    by (simp add: g)
  have 1: "get_singletons pc cl =
     (cl @ map (\<lambda>(n, p). new_Cluster (''singleton_'' @ str_nat n) [protein_id p])
             (enumerate 0 (filter (\<lambda>p. \<not> clustered p) (proteins_list pc))),
      length (filter (\<lambda>p. \<not> clustered p) (proteins_list pc)))"
    by (simp add: g singleton_clusters_def)
  have 2: "map cluster_id (drop (length cl) (fst (get_singletons pc cl))) =
     map (\<lambda>n. ''singleton_'' @ str_nat n)
       [0 ..< length (filter (\<lambda>p. \<not> clustered p) (proteins_list pc))]"
    unfolding d using singleton_clusters_ids[of 0 "proteins_list pc"] by simp
  have 3: "map protein_ids (drop (length cl) (fst (get_singletons pc cl))) =
     map (\<lambda>p. [protein_id p]) (filter (\<lambda>p. \<not> clustered p) (proteins_list pc))"
    unfolding d by (rule singleton_clusters_members)
  have 4: "distinct (map cluster_id (drop (length cl) (fst (get_singletons pc cl))))"
    unfolding d by (rule singleton_clusters_distinct)
  have 5: "drop (length cl) (fst (get_singletons pc cl)) = fst (get_singletons pc [])"
    unfolding d by (simp add: g)
  have 6: "build_ClusterCollection fh pc (Some True) avail =
     (case parse_cluster_file fh pc avail of
        Inl e \<Rightarrow> Inl e
      | Inr out \<Rightarrow> Inr (get_singletons (collection out) (clusters out)))"
    by (simp add: build_ClusterCollection_def split: sum.splits)
  from 1 2 3 4 5 6 show ?thesis by (intro conjI)
qed

theorem get_singletons_result_witness:
  "build_ClusterCollection scenario_fh scenario_pc (Some True) scenario_proteomes =
     Inr ([new_Cluster ''OG1'' [''B.1'', ''A.1'', ''A.2''], new_Cluster ''OG2'' [''A.3''],
           new_Cluster ''singleton_0'' [''B.2'']], 1)"
proof -
  obtain out where o: "parse_cluster_file scenario_fh scenario_pc scenario_proteomes = Inr out"
    and c: "clusters out = [new_Cluster ''OG1'' [''B.1'', ''A.1'', ''A.2''], new_Cluster ''OG2'' [''A.3'']]"
    and p: "map (\<lambda>p. (protein_id p, clustered p)) (proteins_list (collection out)) =
      [(''A.1'', True), (''A.2'', True), (''A.3'', True), (''B.1'', True), (''B.2'', False)]"
    by (auto simp add: parse_cluster_file_def process_line_def Let_def scenario_fh_def scenario_pc_def
        scenario_proteomes_def rstrip_newline_def remove_char_def new_Protein_def new_Cluster_def)
  from p obtain b where f: "filter (\<lambda>p. \<not> clustered p) (proteins_list (collection out)) = [b]"
    and b: "protein_id b = ''B.2''"
    by (auto simp: map_eq_Cons_conv)
  have s: "str_nat 0 = ''0''" by code_simp
  from get_singletons_result[where pc = scenario_pc and fh = scenario_fh and avail = scenario_proteomes]
  have "build_ClusterCollection scenario_fh scenario_pc (Some True) scenario_proteomes =
      Inr (get_singletons (collection out) (clusters out))"
    by (simp add: o)
  moreover from get_singletons_result[where pc = "collection out" and cl = "clusters out"]
  have "get_singletons (collection out) (clusters out) =
      ([new_Cluster ''OG1'' [''B.1'', ''A.1'', ''A.2''], new_Cluster ''OG2'' [''A.3''],
           new_Cluster ''singleton_0'' [''B.2'']], 1)"
    by (simp add: c f b s enumerate_simps)
  ultimately show ?thesis by simp
qed


section \<open>The run summary endpoint\<close>

lemma map_of_brief_items:
  "map_of (brief_items items) =
     map_of items |` (- {''included_proteins'', ''excluded_proteins''})"
  by (induction items) (auto simp: brief_items_def restrict_map_def fun_eq_iff)

text \<open>
  Claim C10. For a session that the decorator lets through and whose \<^verbatim>\<open>summary.json\<close>
  loads as an object, the endpoint answers 200 with the loaded object: whole when
  \<^verbatim>\<open>detailed\<close> is true, and otherwise without the keys \<^verbatim>\<open>included_proteins\<close> and
  \<^verbatim>\<open>excluded_proteins\<close>, every other key keeping its value and its place.
\<close>

theorem get_run_summary_data:
  assumes "check_kinfin_session env" and "summary_file env = Loaded (JObj items)"
  shows "\<exists>r. get_run_summary env detailed = By_endpoint r \<and> status_code r = 200 \<and>
     data r = Some (JObj (if detailed = Some True then items else brief_items items)) \<and>
     map_of (brief_items items) =
       map_of items |` (- {''included_proteins'', ''excluded_proteins''}) \<and>
     map fst (brief_items items) =
       filter (\<lambda>k. k \<noteq> ''included_proteins'' \<and> k \<noteq> ''excluded_proteins'') (map fst items)"
proof -
  have k: "map fst (brief_items items) =
       filter (\<lambda>k. k \<noteq> ''included_proteins'' \<and> k \<noteq> ''excluded_proteins'') (map fst items)"
    by (induction items) (auto simp: brief_items_def)
  show ?thesis
    using assms k map_of_brief_items[of items]
    by (cases "detailed = Some True") (simp_all add: get_run_summary_def brief_items_def)
qed

theorem get_run_summary_data_witness:
  "get_run_summary scenario_session None = By_endpoint
     \<lparr>status_code = 200, status = ''success'',
      message = ''Run summary retrieved successfully.'',
      data = Some (JObj [(''total_clusters'', JInt 3), (''filtered_clusters'', JInt 2)])\<rparr> \<and>
   (\<exists>r. get_run_summary scenario_session (Some True) = By_endpoint r \<and>
      data r = Some (JObj
        [(''total_clusters'', JInt 3), (''included_proteins'', JList [JStr ''B.1'']),
         (''filtered_clusters'', JInt 2), (''excluded_proteins'', JList [JStr ''C.1''])]))"
proof -
  have c: "check_kinfin_session scenario_session"
    by (simp add: check_kinfin_session_def scenario_session_def)
  have f: "summary_file scenario_session = Loaded (JObj
        [(''total_clusters'', JInt 3), (''included_proteins'', JList [JStr ''B.1'']),
         (''filtered_clusters'', JInt 2), (''excluded_proteins'', JList [JStr ''C.1''])])"
    by (simp add: scenario_session_def)
  from get_run_summary_data[OF c f, of "Some True"]
  have 2: "\<exists>r. get_run_summary scenario_session (Some True) = By_endpoint r \<and>
      data r = Some (JObj
        [(''total_clusters'', JInt 3), (''included_proteins'', JList [JStr ''B.1'']),
         (''filtered_clusters'', JInt 2), (''excluded_proteins'', JList [JStr ''C.1''])])"
    by auto
  have 1: "get_run_summary scenario_session None = By_endpoint
     \<lparr>status_code = 200, status = ''success'',
      message = ''Run summary retrieved successfully.'',
      data = Some (JObj [(''total_clusters'', JInt 3), (''filtered_clusters'', JInt 2)])\<rparr>"
    by (simp add: get_run_summary_def c f)
  from 1 2 show ?thesis by (rule conjI)
qed


section \<open>The header of the annotation table\<close>

lemma domain_counts_error: "domain_counts source items counts = Inl e \<Longrightarrow> e = ValueError"
  by (induction source items counts rule: domain_counts.induct)
     (auto split: if_splits list.splits option.splits)

lemma domain_fields_error:
  "domain_fields sources idx fs by_source = Inl e \<Longrightarrow> e = ValueError \<or> e = IndexError"
  by (induction sources idx fs by_source rule: domain_fields.induct)
     (auto split: if_splits sum.splits dest: domain_counts_error)

lemma annotation_line_missing_header:
  "annotation_line pc row = Inl MissingHeaderError \<longleftrightarrow> is_data_row row \<and> domain_sources pc = []"
  by (auto simp: annotation_line_def is_data_row_def split: list.splits sum.splits
      dest: domain_fields_error)

lemma annotation_line_sources:
  "annotation_line pc row = Inr pc' \<Longrightarrow>
     domain_sources pc' = (if is_header_row row then header_sources row else domain_sources pc)"
  by (auto simp: annotation_line_def is_header_row_def header_sources_def
      add_annotation_to_protein_def split: list.splits sum.splits if_splits)

lemma annotation_lines_sources:
  "annotation_lines pc rows = Inr pc' \<Longrightarrow>
     domain_sources pc' = current_sources (domain_sources pc) rows"
proof (induction rows arbitrary: pc)
  case Nil
  then show ?case by simp
next
  case (Cons row rows)
  then obtain pc1 where l: "annotation_line pc row = Inr pc1"
    and r: "annotation_lines pc1 rows = Inr pc'" by (auto split: sum.splits)
  from Cons.IH[OF r] annotation_line_sources[OF l] show ?case by simp
qed

lemma annotation_lines_missing_header:
  "annotation_lines pc rows = Inl MissingHeaderError \<longleftrightarrow>
     (\<exists>pre row post pc'. rows = pre @ row # post \<and> annotation_lines pc pre = Inr pc' \<and>
        is_data_row row \<and> domain_sources pc' = [])"
proof (induction rows arbitrary: pc)
  case Nil
  show ?case by simp
next
  case (Cons r rs)
  show ?case
  proof (cases "annotation_line pc r")
    case (Inl e)
    have "(\<exists>pre row post pc'. r # rs = pre @ row # post \<and> annotation_lines pc pre = Inr pc' \<and>
        is_data_row row \<and> domain_sources pc' = []) \<longleftrightarrow> is_data_row r \<and> domain_sources pc = []"
    proof
      assume "\<exists>pre row post pc'. r # rs = pre @ row # post \<and> annotation_lines pc pre = Inr pc' \<and>
        is_data_row row \<and> domain_sources pc' = []"
      then obtain pre row post pc' where e: "r # rs = pre @ row # post"
        and a: "annotation_lines pc pre = Inr pc'" and d: "is_data_row row"
        and n: "domain_sources pc' = []" by blast
      show "is_data_row r \<and> domain_sources pc = []"
      proof (cases pre)
        case Nil
        with e a d n show ?thesis by simp
      next
        case (Cons x xs)
        with e a Inl show ?thesis by simp
      qed
    next
      assume "is_data_row r \<and> domain_sources pc = []"
      then have "r # rs = [] @ r # rs \<and> annotation_lines pc [] = Inr pc \<and>
        is_data_row r \<and> domain_sources pc = []" by simp
      then show "\<exists>pre row post pc'. r # rs = pre @ row # post \<and> annotation_lines pc pre = Inr pc' \<and>
        is_data_row row \<and> domain_sources pc' = []" by blast
    qed
    with Inl annotation_line_missing_header[of pc r] show ?thesis by auto
  next
    case (Inr pc1)
    have nm: "\<not> (is_data_row r \<and> domain_sources pc = [])"
      using annotation_line_missing_header[of pc r] Inr by simp
    have "(\<exists>pre row post pc'. r # rs = pre @ row # post \<and> annotation_lines pc pre = Inr pc' \<and>
        is_data_row row \<and> domain_sources pc' = []) \<longleftrightarrow>
      (\<exists>pre row post pc'. rs = pre @ row # post \<and> annotation_lines pc1 pre = Inr pc' \<and>
        is_data_row row \<and> domain_sources pc' = [])"
    proof
      assume "\<exists>pre row post pc'. r # rs = pre @ row # post \<and> annotation_lines pc pre = Inr pc' \<and>
        is_data_row row \<and> domain_sources pc' = []"
      then obtain pre row post pc' where e: "r # rs = pre @ row # post"
        and a: "annotation_lines pc pre = Inr pc'" and d: "is_data_row row"
        and n: "domain_sources pc' = []" by blast
      show "\<exists>pre row post pc'. rs = pre @ row # post \<and> annotation_lines pc1 pre = Inr pc' \<and>
        is_data_row row \<and> domain_sources pc' = []"
      proof (cases pre)
        case Nil
        with e a d n nm show ?thesis by simp
      next
        case (Cons x xs)
        with e a Inr have "rs = xs @ row # post" "annotation_lines pc1 xs = Inr pc'" by simp_all
        with d n show ?thesis by blast
      qed
    next
      assume "\<exists>pre row post pc'. rs = pre @ row # post \<and> annotation_lines pc1 pre = Inr pc' \<and>
        is_data_row row \<and> domain_sources pc' = []"
      then obtain pre row post pc' where e: "rs = pre @ row # post"
        and a: "annotation_lines pc1 pre = Inr pc'" and d: "is_data_row row"
        and n: "domain_sources pc' = []" by blast
      from e a Inr have "r # rs = (r # pre) @ row # post" "annotation_lines pc (r # pre) = Inr pc'"
        by simp_all
      with d n show "\<exists>pre row post pc'. r # rs = pre @ row # post \<and>
        annotation_lines pc pre = Inr pc' \<and> is_data_row row \<and> domain_sources pc' = []" by blast
    qed
    with Inr Cons.IH[of pc1] show ?thesis by simp
  qed
qed

lemma current_sources_nonempty:
  "sources \<noteq> [] \<Longrightarrow> \<forall>r \<in> set rows. is_header_row r \<longrightarrow> header_sources r \<noteq> [] \<Longrightarrow>
     current_sources sources rows \<noteq> []"
  by (induction rows arbitrary: sources) auto

lemma header_not_data: "is_header_row row \<Longrightarrow> \<not> is_data_row row"
  by (auto simp: is_header_row_def is_data_row_def split: list.splits)

text \<open>
  Claim C7, as amended. The parser raises \<open>MissingHeaderError\<close> exactly when a data
  row is reached, the rows before it processed without error, while the list of domain
  sources is empty: no header row came before it, or the last header row before it names no
  source. When the first row is a header row and every header row names a source, the
  error is not raised.
\<close>

theorem missing_header_error_iff:
  "(parse_domains_from_functional_annotations_file rows pc = Inl MissingHeaderError \<longleftrightarrow>
      (\<exists>pre row post. rows = pre @ row # post \<and> (\<exists>pc'. annotation_lines pc pre = Inr pc') \<and>
         is_data_row row \<and> current_sources (domain_sources pc) pre = [])) \<and>
   (rows \<noteq> [] \<and> is_header_row (hd rows) \<and>
      (\<forall>r \<in> set rows. is_header_row r \<longrightarrow> header_sources r \<noteq> []) \<longrightarrow>
      parse_domains_from_functional_annotations_file rows pc \<noteq> Inl MissingHeaderError)"
proof -
  have p: "parse_domains_from_functional_annotations_file rows pc = Inl MissingHeaderError \<longleftrightarrow>
      annotation_lines pc rows = Inl MissingHeaderError"
    by (auto simp: parse_domains_from_functional_annotations_file_def split: sum.splits)
  have 1: "parse_domains_from_functional_annotations_file rows pc = Inl MissingHeaderError \<longleftrightarrow>
      (\<exists>pre row post. rows = pre @ row # post \<and> (\<exists>pc'. annotation_lines pc pre = Inr pc') \<and>
         is_data_row row \<and> current_sources (domain_sources pc) pre = [])"
    unfolding p annotation_lines_missing_header
    using annotation_lines_sources by metis
  have 2: "parse_domains_from_functional_annotations_file rows pc \<noteq> Inl MissingHeaderError"
    if ne: "rows \<noteq> []" and h: "is_header_row (hd rows)"
      and a: "\<forall>r \<in> set rows. is_header_row r \<longrightarrow> header_sources r \<noteq> []"
  proof
    assume "parse_domains_from_functional_annotations_file rows pc = Inl MissingHeaderError"
    with 1 obtain pre row post where e: "rows = pre @ row # post"
      and d: "is_data_row row" and c: "current_sources (domain_sources pc) pre = []" by blast
    show False
    proof (cases pre)
      case Nil
      with e h d header_not_data show ?thesis by simp
    next
      case (Cons x xs)
      with e h have hx: "is_header_row x" by simp
      from Cons e a have "header_sources x \<noteq> []" "\<forall>r \<in> set xs. is_header_row r \<longrightarrow> header_sources r \<noteq> []"
        using hx by auto
      from current_sources_nonempty[OF this] Cons c hx show ?thesis by simp
    qed
  qed
  from 1 2 show ?thesis by blast
qed


lemma header_only_rows:
  "split_whitespace ''#protein_id'' = [''#protein_id'']"
  "split_whitespace ''A.1 PF1:2'' = [''A.1'', ''PF1:2'']"
  "split_whitespace ''#protein_id Pfam'' = [''#protein_id'', ''Pfam'']"
  by (simp_all add: split_whitespace_def is_space_def)

lemma no_break_space_header:
  "split_whitespace (''#protein_id'' @ [CHR 0xA0] @ ''Pfam'') = [''#protein_id'', ''Pfam'']"
  by (simp add: split_whitespace_def is_space_def)

lemma no_break_space_file:
  "\<exists>pc'. parse_domains_from_functional_annotations_file
      [''#protein_id'' @ [CHR 0xA0] @ ''Pfam'', ''A.1 PF1:2''] scenario_pc = Inr pc' \<and>
     domain_sources pc' = [''Pfam''] \<and> map fst (annotations pc') = [''A.1'']"
  by (simp add: parse_domains_from_functional_annotations_file_def annotation_line_def
      split_whitespace_def startswith_hash_def scenario_pc_def
      rsplit_char_max_def py_int_def strip_def is_space_def int_unsigned_def is_digit_def
      digit_value_def eval_nat_numeral add_annotation_to_protein_def)
text \<open>
  Claim C7 as stated fails: a header row that names no source is the first row, and the
  data row after it raises \<open>MissingHeaderError\<close>.
\<close>

theorem missing_header_counterexample:
  "is_header_row (hd [''#protein_id'', ''A.1 PF1:2'']) \<and>
   parse_domains_from_functional_annotations_file [''#protein_id'', ''A.1 PF1:2'']
     (scenario_pc\<lparr>domain_sources := []\<rparr>) = Inl MissingHeaderError"
  by (simp add: parse_domains_from_functional_annotations_file_def annotation_line_def
      is_header_row_def header_only_rows startswith_hash_def)

theorem missing_header_error_iff_witness:
  "parse_domains_from_functional_annotations_file [''A.1 PF1:2'', ''#protein_id Pfam'']
     (scenario_pc\<lparr>domain_sources := []\<rparr>) = Inl MissingHeaderError \<and>
   parse_domains_from_functional_annotations_file [''#protein_id Pfam'', ''A.1 PF1:2'']
     (scenario_pc\<lparr>domain_sources := []\<rparr>) \<noteq> Inl MissingHeaderError"
proof -
  let ?pc = "scenario_pc\<lparr>domain_sources := []\<rparr>"
  have "[''A.1 PF1:2'', ''#protein_id Pfam''] = [] @ ''A.1 PF1:2'' # [''#protein_id Pfam''] \<and>
      (\<exists>pc'. annotation_lines ?pc [] = Inr pc') \<and> is_data_row ''A.1 PF1:2'' \<and>
      current_sources (domain_sources ?pc) [] = []"
    by (simp add: is_data_row_def header_only_rows startswith_hash_def)
  then have "\<exists>pre row post. [''A.1 PF1:2'', ''#protein_id Pfam''] = pre @ row # post \<and>
      (\<exists>pc'. annotation_lines ?pc pre = Inr pc') \<and> is_data_row row \<and>
      current_sources (domain_sources ?pc) pre = []"
    by blast
  with missing_header_error_iff[of "[''A.1 PF1:2'', ''#protein_id Pfam'']" ?pc]
  have 1: "parse_domains_from_functional_annotations_file [''A.1 PF1:2'', ''#protein_id Pfam''] ?pc =
      Inl MissingHeaderError" by blast
  have "[''#protein_id Pfam'', ''A.1 PF1:2''] \<noteq> [] \<and>
      is_header_row (hd [''#protein_id Pfam'', ''A.1 PF1:2'']) \<and>
      (\<forall>r \<in> set [''#protein_id Pfam'', ''A.1 PF1:2'']. is_header_row r \<longrightarrow> header_sources r \<noteq> [])"
    by (simp add: is_header_row_def header_sources_def header_only_rows startswith_hash_def)
  with missing_header_error_iff[of "[''#protein_id Pfam'', ''A.1 PF1:2'']" ?pc]
  have 2: "parse_domains_from_functional_annotations_file [''#protein_id Pfam'', ''A.1 PF1:2''] ?pc \<noteq>
      Inl MissingHeaderError" by blast
  from 1 2 show ?thesis by (rule conjI)
qed


section \<open>The counters of an annotation row\<close>

text \<open>A count of more than 4300 digits is not read.\<close>

lemma int_digit_limit:
  "length s = 4301 \<Longrightarrow> \<forall>c \<in> set s. is_digit c \<Longrightarrow> int_unsigned s = None"
  by (cases s) (auto simp: int_unsigned_def filter_id_conv[THEN iffD2])
lemma split_char_max_Suc:
  "split_char_max sep (Suc n) s =
     (if sep \<in> set s
      then takeWhile (\<lambda>c. c \<noteq> sep) s # split_char_max sep n (tl (dropWhile (\<lambda>c. c \<noteq> sep) s))
      else [s])"
  by (induction s) auto

lemma split_char_max_two:
  assumes "split_char_max sep 2 s = [x, y]"
  shows "s = x @ sep # y \<and> sep \<notin> set x \<and> sep \<notin> set y"
proof -
  have two: "2 = Suc (Suc 0)" by simp
  let ?r = "tl (dropWhile (\<lambda>c. c \<noteq> sep) s)"
  from assms have in_s: "sep \<in> set s"
    unfolding two by (subst (asm) split_char_max_Suc) (auto split: if_splits)
  with assms have x: "x = takeWhile (\<lambda>c. c \<noteq> sep) s" and r: "split_char_max sep (Suc 0) ?r = [y]"
    unfolding two by (subst (asm) split_char_max_Suc, simp)+
  from r have nr: "sep \<notin> set ?r" and y: "y = ?r"
    by (subst (asm) split_char_max_Suc, simp split: if_splits)+
  from in_s have "dropWhile (\<lambda>c. c \<noteq> sep) s \<noteq> []" by simp
  moreover then have "hd (dropWhile (\<lambda>c. c \<noteq> sep) s) = sep"
    using hd_dropWhile[of "\<lambda>c. c \<noteq> sep" s] by simp
  ultimately have d: "dropWhile (\<lambda>c. c \<noteq> sep) s = sep # ?r"
    by (metis list.collapse)
  have "s = takeWhile (\<lambda>c. c \<noteq> sep) s @ dropWhile (\<lambda>c. c \<noteq> sep) s" by simp
  with d x y have "s = x @ sep # y" by simp
  moreover have "sep \<notin> set x" unfolding x by (auto dest: set_takeWhileD)
  ultimately show ?thesis using nr y by simp
qed

lemma rsplit_pair:
  assumes "rsplit_char_max sep 2 item = [a, b]"
  shows "item = a @ sep # b \<and> sep \<notin> set a \<and> sep \<notin> set b"
proof -
  from assms have "rev (map rev (split_char_max sep 2 (rev item))) = [a, b]"
    by (simp add: rsplit_char_max_def)
  then have "map rev (split_char_max sep 2 (rev item)) = [b, a]"
    by (metis rev.simps rev_rev_ident append_Nil append_Cons)
  then have "split_char_max sep 2 (rev item) = [rev b, rev a]"
    by (auto simp: map_eq_Cons_conv rev_swap[symmetric])
  from split_char_max_two[OF this] have "rev item = rev b @ sep # rev a"
    and n: "sep \<notin> set a" "sep \<notin> set b" by simp_all
  then have "rev (rev item) = rev (rev b @ sep # rev a)" by simp
  then have "item = a @ sep # b" by simp
  with n show ?thesis by simp
qed

lemma takeWhile_until: "x \<notin> set a \<Longrightarrow> takeWhile (\<lambda>c. c \<noteq> x) (a @ x # b) = a"
  by (induction a) auto

lemma dropWhile_until: "x \<notin> set a \<Longrightarrow> dropWhile (\<lambda>c. c \<noteq> x) (a @ x # b) = x # b"
  by (induction a) auto

lemma one_colon_pair_rsplit:
  assumes "rsplit_char_max CHR '':'' 2 item = [a, b]"
  shows "one_colon_pair item = map_option (Pair a) (py_int b)"
proof -
  from rsplit_pair[OF assms] have i: "item = a @ CHR '':'' # b"
    and na: "CHR '':'' \<notin> set a" and nb: "CHR '':'' \<notin> set b" by simp_all
  have f: "filter (\<lambda>c. c = CHR '':'') a = []" "filter (\<lambda>c. c = CHR '':'') b = []"
    using na nb by (auto simp: filter_empty_conv)
  have t: "takeWhile (\<lambda>c. c \<noteq> CHR '':'') item = a"
    unfolding i using na by (rule takeWhile_until)
  have d: "dropWhile (\<lambda>c. c \<noteq> CHR '':'') item = CHR '':'' # b"
    unfolding i using na by (rule dropWhile_until)
  show ?thesis unfolding one_colon_pair_def t d by (simp add: i f)
qed


lemma domain_counts_GO:
  "domain_counts ''GO'' items counts = Inr (\<lambda>t. if t \<in> set items then Some 1 else counts t)"
  by (induction items arbitrary: counts) (auto simp: fun_eq_iff)

lemma domain_counts_pairs:
  assumes "source \<noteq> ''GO''" and "domain_counts source items counts = Inr result"
  shows "\<exists>pairs. those (map one_colon_pair items) = Some pairs \<and> result = counts ++ map_of (rev pairs)"
  using assms(2)
proof (induction items arbitrary: counts)
  case Nil
  then show ?case by simp
next
  case (Cons item items)
  from Cons.prems assms(1) obtain a b n where r: "rsplit_char_max CHR '':'' 2 item = [a, b]"
    and n: "py_int b = Some n"
    and rest: "domain_counts source items (counts(a \<mapsto> n)) = Inr result"
    by (auto split: list.splits option.splits)
  from Cons.IH[OF rest] obtain pairs where p: "those (map one_colon_pair items) = Some pairs"
    and e: "result = counts(a \<mapsto> n) ++ map_of (rev pairs)" by blast
  have i: "one_colon_pair item = Some (a, n)" using one_colon_pair_rsplit[OF r] n by simp
  have "those (map one_colon_pair (item # items)) = Some ((a, n) # pairs)" using i p by simp
  moreover have "result = counts ++ map_of (rev ((a, n) # pairs))"
    unfolding e by (simp add: fun_eq_iff map_add_def split: option.splits)
  ultimately show ?case by blast
qed

lemma domain_counts_claimed:
  assumes "domain_counts source (split_char CHR '';'' field) Map.empty = Inr result"
  shows "field_counter source field = Some result"
proof (cases "source = ''GO''")
  case True
  with assms show ?thesis by (simp add: field_counter_def domain_counts_GO)
next
  case False
  from domain_counts_pairs[OF False assms] show ?thesis
    by (auto simp: field_counter_def False)
qed

lemma domain_fields_untouched:
  "domain_fields sources idx fs acc = Inr by_source \<Longrightarrow>
     (\<forall>i < length fs. fs ! i \<noteq> ''None'' \<longrightarrow> sources ! (idx + i) \<noteq> s) \<Longrightarrow>
     by_source s = acc s"
proof (induction fs arbitrary: idx acc)
  case Nil
  then show ?case by simp
next
  case (Cons f fs)
  have later: "\<forall>i < length fs. fs ! i \<noteq> ''None'' \<longrightarrow> sources ! (Suc idx + i) \<noteq> s"
    using Cons.prems(2) by (auto dest: spec[of _ "Suc i" for i])
  show ?case
  proof (cases "f = ''None''")
    case True
    with Cons.prems(1) have "domain_fields sources (Suc idx) fs acc = Inr by_source" by simp
    from Cons.IH[OF this later] show ?thesis .
  next
    case False
    with Cons.prems(1) obtain counts where
      r: "domain_fields sources (Suc idx) fs (acc(sources ! idx \<mapsto> counts)) = Inr by_source"
      by (auto split: if_splits sum.splits)
    from Cons.prems(2) False have "sources ! idx \<noteq> s" by (auto dest: spec[of _ 0])
    with Cons.IH[OF r later] show ?thesis by simp
  qed
qed

lemma domain_fields_in_range:
  "domain_fields sources idx fs acc = Inr by_source \<Longrightarrow> i < length fs \<Longrightarrow>
     fs ! i \<noteq> ''None'' \<Longrightarrow> idx + i < length sources"
proof (induction fs arbitrary: idx acc i)
  case Nil
  then show ?case by simp
next
  case (Cons f fs)
  show ?case
  proof (cases i)
    case 0
    with Cons.prems show ?thesis by (auto split: if_splits sum.splits)
  next
    case (Suc k)
    from Cons.prems(1) obtain acc' where
      r: "domain_fields sources (Suc idx) fs acc' = Inr by_source"
      by (auto split: if_splits sum.splits)
    from Cons.IH[OF r, of k] Cons.prems(2,3) Suc show ?thesis by simp
  qed
qed

lemma domain_fields_dom:
  "domain_fields sources idx fs acc = Inr by_source \<Longrightarrow>
     s \<in> dom by_source \<longleftrightarrow>
       s \<in> dom acc \<or> (\<exists>i < length fs. fs ! i \<noteq> ''None'' \<and> sources ! (idx + i) = s)"
proof (induction fs arbitrary: idx acc)
  case Nil
  then show ?case by simp
next
  case (Cons f fs)
  have shift: "(\<exists>i < length (f # fs). (f # fs) ! i \<noteq> ''None'' \<and> sources ! (idx + i) = s) \<longleftrightarrow>
      (f \<noteq> ''None'' \<and> sources ! idx = s) \<or>
      (\<exists>i < length fs. fs ! i \<noteq> ''None'' \<and> sources ! (Suc idx + i) = s)"
    (is "?L \<longleftrightarrow> ?A \<or> ?B")
  proof
    assume ?L
    then obtain i where i: "i < length (f # fs)" "(f # fs) ! i \<noteq> ''None''" "sources ! (idx + i) = s"
      by blast
    show "?A \<or> ?B"
    proof (cases i)
      case 0
      with i show ?thesis by simp
    next
      case (Suc k)
      with i have "k < length fs" "fs ! k \<noteq> ''None''" "sources ! (Suc idx + k) = s" by simp_all
      then show ?thesis by blast
    qed
  next
    assume "?A \<or> ?B"
    then show ?L
    proof
      assume ?A
      then have "0 < length (f # fs) \<and> (f # fs) ! 0 \<noteq> ''None'' \<and> sources ! (idx + 0) = s" by simp
      then show ?L by blast
    next
      assume ?B
      then obtain k where "k < length fs" "fs ! k \<noteq> ''None''" "sources ! (Suc idx + k) = s" by blast
      then have "Suc k < length (f # fs) \<and> (f # fs) ! Suc k \<noteq> ''None'' \<and> sources ! (idx + Suc k) = s"
        by simp
      then show ?L by blast
    qed
  qed
  show ?case
  proof (cases "f = ''None''")
    case True
    with Cons.prems have "domain_fields sources (Suc idx) fs acc = Inr by_source" by simp
    from Cons.IH[OF this] True show ?thesis unfolding shift by simp
  next
    case False
    with Cons.prems obtain counts where
      r: "domain_fields sources (Suc idx) fs (acc(sources ! idx \<mapsto> counts)) = Inr by_source"
      by (auto split: if_splits sum.splits)
    from Cons.IH[OF r] False show ?thesis unfolding shift by (auto split: if_splits)
  qed
qed

lemma domain_fields_value:
  "domain_fields sources idx fs acc = Inr by_source \<Longrightarrow> i < length fs \<Longrightarrow>
     fs ! i \<noteq> ''None'' \<Longrightarrow>
     (\<forall>j < length fs. i < j \<and> fs ! j \<noteq> ''None'' \<longrightarrow> sources ! (idx + j) \<noteq> sources ! (idx + i)) \<Longrightarrow>
     by_source (sources ! (idx + i)) = field_counter (sources ! (idx + i)) (fs ! i)"
proof (induction fs arbitrary: idx acc i)
  case Nil
  then show ?case by simp
next
  case (Cons f fs)
  show ?case
  proof (cases i)
    case 0
    with Cons.prems(3) have nf: "f \<noteq> ''None''" by simp
    with Cons.prems(1) obtain counts where
      c: "domain_counts (sources ! idx) (split_char CHR '';'' f) Map.empty = Inr counts"
      and r: "domain_fields sources (Suc idx) fs (acc(sources ! idx \<mapsto> counts)) = Inr by_source"
      by (auto split: if_splits sum.splits)
    have "\<forall>k < length fs. fs ! k \<noteq> ''None'' \<longrightarrow> sources ! (Suc idx + k) \<noteq> sources ! idx"
    proof (intro allI impI)
      fix k assume "k < length fs" "fs ! k \<noteq> ''None''"
      then have "Suc k < length (f # fs) \<and> i < Suc k \<and> (f # fs) ! Suc k \<noteq> ''None''"
        using 0 by simp
      with Cons.prems(4) have "sources ! (idx + Suc k) \<noteq> sources ! (idx + i)" by blast
      with 0 show "sources ! (Suc idx + k) \<noteq> sources ! idx" by simp
    qed
    from domain_fields_untouched[OF r this] domain_counts_claimed[OF c] 0 show ?thesis by simp
  next
    case (Suc k)
    from Cons.prems(1) obtain acc' where
      r: "domain_fields sources (Suc idx) fs acc' = Inr by_source"
      by (auto split: if_splits sum.splits)
    have k: "k < length fs" "fs ! k \<noteq> ''None''" using Cons.prems(2,3) Suc by simp_all
    have "\<forall>j < length fs. k < j \<and> fs ! j \<noteq> ''None'' \<longrightarrow>
        sources ! (Suc idx + j) \<noteq> sources ! (Suc idx + k)"
    proof (intro allI impI)
      fix j assume "j < length fs" "k < j \<and> fs ! j \<noteq> ''None''"
      then have "Suc j < length (f # fs) \<and> i < Suc j \<and> (f # fs) ! Suc j \<noteq> ''None''"
        using Suc by simp
      with Cons.prems(4) have "sources ! (idx + Suc j) \<noteq> sources ! (idx + i)" by blast
      with Suc show "sources ! (Suc idx + j) \<noteq> sources ! (Suc idx + k)" by simp
    qed
    from Cons.IH[OF r k this] Suc show ?thesis by simp
  qed
qed


lemma domain_fields_counts:
  "domain_fields sources idx fs acc = Inr by_source \<Longrightarrow> i < length fs \<Longrightarrow>
     fs ! i \<noteq> ''None'' \<Longrightarrow>
     \<exists>counts. domain_counts (sources ! (idx + i)) (split_char CHR '';'' (fs ! i)) Map.empty = Inr counts"
proof (induction fs arbitrary: idx acc i)
  case Nil
  then show ?case by simp
next
  case (Cons f fs)
  show ?case
  proof (cases i)
    case 0
    with Cons.prems show ?thesis by (auto split: if_splits sum.splits)
  next
    case (Suc k)
    from Cons.prems(1) obtain acc' where
      r: "domain_fields sources (Suc idx) fs acc' = Inr by_source"
      by (auto split: if_splits sum.splits)
    from Cons.IH[OF r, of k] Cons.prems(2,3) Suc show ?thesis by simp
  qed
qed

lemma rsplit_of_pair:
  assumes "sep \<notin> set a" "sep \<notin> set b"
  shows "rsplit_char_max sep 2 (a @ sep # b) = [a, b]"
proof -
  have two: "2 = Suc (Suc 0)" by simp
  have nb: "sep \<notin> set (rev b)" and na: "sep \<notin> set (rev a)" using assms by simp_all
  have one: "split_char_max sep (Suc 0) (rev a) = [rev a]"
    using na by (subst split_char_max_Suc) simp
  have "split_char_max sep (Suc (Suc 0)) (rev b @ sep # rev a) =
      takeWhile (\<lambda>c. c \<noteq> sep) (rev b @ sep # rev a) #
        split_char_max sep (Suc 0) (tl (dropWhile (\<lambda>c. c \<noteq> sep) (rev b @ sep # rev a)))"
    by (subst split_char_max_Suc) simp
  also have "\<dots> = [rev b, rev a]"
    by (simp only: takeWhile_until[OF nb] dropWhile_until[OF nb] list.sel one)
  finally have "split_char_max sep 2 (rev (a @ sep # b)) = [rev b, rev a]"
    unfolding two by simp
  then show ?thesis by (simp only: rsplit_char_max_def list.map rev.simps rev_rev_ident append.simps)
qed

lemma single_separator:
  "length (filter (\<lambda>c. c = sep) s) = 1 \<Longrightarrow>
     s = takeWhile (\<lambda>c. c \<noteq> sep) s @ sep # tl (dropWhile (\<lambda>c. c \<noteq> sep) s) \<and>
     sep \<notin> set (takeWhile (\<lambda>c. c \<noteq> sep) s) \<and> sep \<notin> set (tl (dropWhile (\<lambda>c. c \<noteq> sep) s))"
proof (induction s)
  case Nil
  then show ?case by simp
next
  case (Cons c cs)
  show ?case
  proof (cases "c = sep")
    case True
    with Cons.prems have "filter (\<lambda>c. c = sep) cs = []" by simp
    then have "sep \<notin> set cs" by (auto simp: filter_empty_conv)
    with True show ?thesis by simp
  next
    case False
    with Cons.prems have "length (filter (\<lambda>c. c = sep) cs) = 1" by simp
    from Cons.IH[OF this] False show ?thesis by simp
  qed
qed

lemma one_colon_pair_Some:
  assumes "one_colon_pair item = Some (a, n)"
  shows "\<exists>b. rsplit_char_max CHR '':'' 2 item = [a, b] \<and> py_int b = Some n"
proof -
  let ?b = "tl (dropWhile (\<lambda>c. c \<noteq> CHR '':'') item)"
  from assms have c: "length (filter (\<lambda>c. c = CHR '':'') item) = 1"
    and a: "a = takeWhile (\<lambda>c. c \<noteq> CHR '':'') item" and n: "py_int ?b = Some n"
    by (auto simp: one_colon_pair_def split: if_splits)
  from single_separator[OF c] a have i: "item = a @ CHR '':'' # ?b"
    and na: "CHR '':'' \<notin> set a" and nb: "CHR '':'' \<notin> set ?b" by simp_all
  from rsplit_of_pair[OF na nb] i have "rsplit_char_max CHR '':'' 2 item = [a, ?b]" by simp
  with n show ?thesis by blast
qed

lemma domain_counts_pairs_total:
  assumes "source \<noteq> ''GO''" and "those (map one_colon_pair items) = Some pairs"
  shows "\<exists>result. domain_counts source items counts = Inr result"
  using assms(2)
proof (induction items arbitrary: counts pairs)
  case Nil
  then show ?case by simp
next
  case (Cons item items)
  from Cons.prems obtain a n rest where i: "one_colon_pair item = Some (a, n)"
    and r: "those (map one_colon_pair items) = Some rest"
    by (auto split: option.splits)
  from one_colon_pair_Some[OF i] obtain b where s: "rsplit_char_max CHR '':'' 2 item = [a, b]"
    and p: "py_int b = Some n" by blast
  from Cons.IH[OF r, of "counts(a \<mapsto> n)"] obtain result where
    "domain_counts source items (counts(a \<mapsto> n)) = Inr result" by blast
  then have "domain_counts source (item # items) counts = Inr result"
    using assms(1) s p by (simp del: fun_upd_apply)
  then show ?case by blast
qed

lemma domain_counts_total:
  assumes "field_counter source field \<noteq> None"
  shows "\<exists>result. domain_counts source (split_char CHR '';'' field) counts = Inr result"
proof (cases "source = ''GO''")
  case True
  then show ?thesis by (simp add: domain_counts_GO)
next
  case False
  with assms obtain pairs where "those (map one_colon_pair (split_char CHR '';'' field)) = Some pairs"
    by (auto simp: field_counter_def)
  from domain_counts_pairs_total[OF False this] show ?thesis .
qed

lemma domain_fields_total:
  "(\<forall>i < length fs. fs ! i \<noteq> ''None'' \<longrightarrow>
      idx + i < length sources \<and> field_counter (sources ! (idx + i)) (fs ! i) \<noteq> None) \<Longrightarrow>
   \<exists>by_source. domain_fields sources idx fs acc = Inr by_source"
proof (induction fs arbitrary: idx acc)
  case Nil
  show ?case by simp
next
  case (Cons f fs)
  have later: "\<forall>i < length fs. fs ! i \<noteq> ''None'' \<longrightarrow>
      Suc idx + i < length sources \<and> field_counter (sources ! (Suc idx + i)) (fs ! i) \<noteq> None"
  proof (intro allI impI)
    fix i assume a: "i < length fs" and b: "fs ! i \<noteq> ''None''"
    show "Suc idx + i < length sources \<and>
        field_counter (sources ! (Suc idx + i)) (fs ! i) \<noteq> None"
      using Cons.prems[rule_format, of "Suc i"] a b by simp
  qed
  show ?case
  proof (cases "f = ''None''")
    case True
    from Cons.IH[OF later, of acc] obtain by_source where
      "domain_fields sources (Suc idx) fs acc = Inr by_source" by blast
    with True have "domain_fields sources idx (f # fs) acc = Inr by_source" by simp
    then show ?thesis by blast
  next
    case False
    have l: "idx < length sources" and c: "field_counter (sources ! idx) f \<noteq> None"
      using Cons.prems[rule_format, of 0] False by simp_all
    from domain_counts_total[OF c, of Map.empty] obtain counts where
      d: "domain_counts (sources ! idx) (split_char CHR '';'' f) Map.empty = Inr counts" by blast
    from Cons.IH[OF later, of "acc(sources ! idx \<mapsto> counts)"] obtain by_source where
      "domain_fields sources (Suc idx) fs (acc(sources ! idx \<mapsto> counts)) = Inr by_source" by blast
    with False l d have "domain_fields sources idx (f # fs) acc = Inr by_source"
      by (simp del: fun_upd_apply)
    then show ?thesis by blast
  qed
qed


text \<open>
  The rows the parser takes. A data row read under a header that is not empty, every field
  of which other than \<^verbatim>\<open>None\<close> stands under a column of the header and holds GO
  terms, for the source GO, or pairs with exactly one colon and a count that \<^verbatim>\<open>int\<close>
  reads, for another source, is processed without error. The counters handed to
  \<^verbatim>\<open>add_annotation_to_protein\<close> have a key for a source exactly when a field other
  than \<^verbatim>\<open>None\<close> stands in a column of that source: a field \<^verbatim>\<open>None\<close> adds no key,
  not even one with the count 0. The source of every other field maps to what the field
  holds, GO terms with the count 1 or the pairs with their counts, unless a later field of
  the same source replaces it.
\<close>

theorem annotation_row_counters:
  assumes "is_data_row row" and "domain_sources pc \<noteq> []"
    and "\<forall>i < length (row_fields row). row_fields row ! i \<noteq> ''None'' \<longrightarrow>
        i < length (domain_sources pc) \<and>
        field_counter (domain_sources pc ! i) (row_fields row ! i) \<noteq> None"
  shows "\<exists>pc' by_source.
     annotation_line pc row = Inr pc' \<and>
     annotations pc' = annotations pc @ [(hd (split_whitespace row), by_source, [])] \<and>
     (\<forall>s. s \<in> dom by_source \<longleftrightarrow>
        (\<exists>i < length (row_fields row). row_fields row ! i \<noteq> ''None'' \<and> domain_sources pc ! i = s)) \<and>
     (\<forall>i < length (row_fields row). row_fields row ! i \<noteq> ''None'' \<longrightarrow>
        (\<forall>j < length (row_fields row). i < j \<and> row_fields row ! j \<noteq> ''None'' \<longrightarrow>
            domain_sources pc ! j \<noteq> domain_sources pc ! i) \<longrightarrow>
        by_source (domain_sources pc ! i) =
          field_counter (domain_sources pc ! i) (row_fields row ! i))"
proof -
  from assms(1) obtain first rest where sp: "split_whitespace row = first # rest"
    and nh: "\<not> startswith_hash first"
    by (auto simp: is_data_row_def split: list.splits)
  have rf: "row_fields row = rest" by (simp add: row_fields_def sp)
  have "\<forall>i < length rest. rest ! i \<noteq> ''None'' \<longrightarrow>
      0 + i < length (domain_sources pc) \<and>
      field_counter (domain_sources pc ! (0 + i)) (rest ! i) \<noteq> None"
    using assms(3) by (simp add: rf)
  from domain_fields_total[OF this, of Map.empty] obtain by_source where
    f: "domain_fields (domain_sources pc) 0 rest Map.empty = Inr by_source" by blast
  let ?pc = "add_annotation_to_protein first by_source [] pc"
  have 0: "annotation_line pc row = Inr ?pc"
    using sp nh assms(2) f by (simp add: annotation_line_def)
  have 1: "annotations ?pc = annotations pc @ [(hd (split_whitespace row), by_source, [])]"
    by (simp add: sp add_annotation_to_protein_def)
  have 2: "\<forall>s. s \<in> dom by_source \<longleftrightarrow>
        (\<exists>i < length (row_fields row). row_fields row ! i \<noteq> ''None'' \<and> domain_sources pc ! i = s)"
    using domain_fields_dom[OF f] by (simp add: rf)
  have 3: "\<forall>i < length (row_fields row). row_fields row ! i \<noteq> ''None'' \<longrightarrow>
        (\<forall>j < length (row_fields row). i < j \<and> row_fields row ! j \<noteq> ''None'' \<longrightarrow>
            domain_sources pc ! j \<noteq> domain_sources pc ! i) \<longrightarrow>
        by_source (domain_sources pc ! i) =
          field_counter (domain_sources pc ! i) (row_fields row ! i)"
  proof (intro allI impI)
    fix i assume i: "i < length (row_fields row)" and n: "row_fields row ! i \<noteq> ''None''"
      and l: "\<forall>j < length (row_fields row). i < j \<and> row_fields row ! j \<noteq> ''None'' \<longrightarrow>
            domain_sources pc ! j \<noteq> domain_sources pc ! i"
    from domain_fields_value[OF f, of i] i n l
    show "by_source (domain_sources pc ! i) =
           field_counter (domain_sources pc ! i) (row_fields row ! i)" by (simp add: rf)
  qed
  show ?thesis by (intro exI[of _ ?pc] exI[of _ by_source] conjI) (fact 0 1 2 3)+
qed

lemma annotated_row:
  "split_whitespace ''A.1 PF1:2;PF2:1 None GO:1;GO:2'' = [''A.1'', ''PF1:2;PF2:1'', ''None'', ''GO:1;GO:2'']"
  by (simp add: split_whitespace_def is_space_def)

theorem annotation_row_counters_witness:
  "\<exists>pc' by_source.
     annotation_line annotated_pc ''A.1 PF1:2;PF2:1 None GO:1;GO:2'' = Inr pc' \<and>
     annotations pc' = [(''A.1'', by_source, [])] \<and>
     ''IPR'' \<notin> dom by_source \<and>
     by_source ''Pfam'' = field_counter ''Pfam'' ''PF1:2;PF2:1'' \<and>
     by_source ''GO'' = field_counter ''GO'' ''GO:1;GO:2'' \<and>
     map_option (\<lambda>m. map m [''PF1'', ''PF2'', ''PF3'']) (field_counter ''Pfam'' ''PF1:2;PF2:1'') =
       Some [Some 2, Some 1, None] \<and>
     map_option (\<lambda>m. map m [''GO:1'', ''GO:2'', ''GO:3'']) (field_counter ''GO'' ''GO:1;GO:2'') =
       Some [Some 1, Some 1, None]"
proof -
  let ?row = "''A.1 PF1:2;PF2:1 None GO:1;GO:2''"
  have d: "is_data_row ?row"
    by (simp add: is_data_row_def annotated_row startswith_hash_def)
  have rf: "row_fields ?row = [''PF1:2;PF2:1'', ''None'', ''GO:1;GO:2'']"
    by (simp add: row_fields_def annotated_row)
  have ds: "domain_sources annotated_pc = [''Pfam'', ''IPR'', ''GO'']"
    and an: "annotations annotated_pc = []"
    by (simp_all add: annotated_pc_def scenario_pc_def)
  have 5: "map_option (\<lambda>m. map m [''PF1'', ''PF2'', ''PF3'']) (field_counter ''Pfam'' ''PF1:2;PF2:1'') =
       Some [Some 2, Some 1, None]"
    by (simp add: field_counter_def one_colon_pair_def py_int_def strip_def is_space_def int_unsigned_def is_digit_def
      digit_value_def)
  have 6: "map_option (\<lambda>m. map m [''GO:1'', ''GO:2'', ''GO:3'']) (field_counter ''GO'' ''GO:1;GO:2'') =
       Some [Some 1, Some 1, None]"
    by (simp add: field_counter_def)
  have ne: "domain_sources annotated_pc \<noteq> []" by (simp add: ds)
  have wf: "\<forall>i < length (row_fields ?row). row_fields ?row ! i \<noteq> ''None'' \<longrightarrow>
        i < length (domain_sources annotated_pc) \<and>
        field_counter (domain_sources annotated_pc ! i) (row_fields ?row ! i) \<noteq> None"
    using 5 6 by (auto simp: rf ds less_Suc_eq nth_Cons')
  from annotation_row_counters[OF d ne wf] obtain pc' by_source where
    o: "annotation_line annotated_pc ?row = Inr pc'"
    and a: "annotations pc' = annotations annotated_pc @ [(hd (split_whitespace ?row), by_source, [])]"
    and dm: "\<forall>s. s \<in> dom by_source \<longleftrightarrow>
        (\<exists>i < length (row_fields ?row). row_fields ?row ! i \<noteq> ''None'' \<and>
           domain_sources annotated_pc ! i = s)"
    and v: "\<forall>i < length (row_fields ?row). row_fields ?row ! i \<noteq> ''None'' \<longrightarrow>
        (\<forall>j < length (row_fields ?row). i < j \<and> row_fields ?row ! j \<noteq> ''None'' \<longrightarrow>
            domain_sources annotated_pc ! j \<noteq> domain_sources annotated_pc ! i) \<longrightarrow>
         by_source (domain_sources annotated_pc ! i) =
           field_counter (domain_sources annotated_pc ! i) (row_fields ?row ! i)"
    by blast
  have 1: "annotations pc' = [(''A.1'', by_source, [])]"
    using a by (simp add: an annotated_row)
  have 2: "''IPR'' \<notin> dom by_source"
    using dm[THEN spec, of "''IPR''"] by (auto simp: rf ds less_Suc_eq nth_Cons')
  have 3: "by_source ''Pfam'' = field_counter ''Pfam'' ''PF1:2;PF2:1''"
    using v[THEN spec, of 0] by (auto simp: rf ds less_Suc_eq nth_Cons')
  have 4: "by_source ''GO'' = field_counter ''GO'' ''GO:1;GO:2''"
    using v[THEN spec, of 2] by (auto simp: rf ds less_Suc_eq nth_Cons')
  show ?thesis by (intro exI[of _ pc'] exI[of _ by_source] conjI) (fact o 1 2 3 4 5 6)+
qed


text \<open>
  On the items with one colon the two readings of a pair agree.
\<close>

lemma one_colon_pair_claimed_pair:
  assumes "one_colon_pair item = Some p"
  shows "claimed_pair item = Some p"
proof -
  obtain a n where p: "p = (a, n)" by (cases p)
  let ?b = "tl (dropWhile (\<lambda>c. c \<noteq> CHR '':'') item)"
  from assms p have c: "length (filter (\<lambda>c. c = CHR '':'') item) = 1"
    and a: "a = takeWhile (\<lambda>c. c \<noteq> CHR '':'') item" and n: "py_int ?b = Some n"
    by (auto simp: one_colon_pair_def split: if_splits)
  from single_separator[OF c] a have i: "item = a @ CHR '':'' # ?b"
    and na: "CHR '':'' \<notin> set a" and nb: "CHR '':'' \<notin> set ?b" by simp_all
  have r: "rev item = rev ?b @ CHR '':'' # rev a" by (subst i) simp
  have nrb: "CHR '':'' \<notin> set (rev ?b)" using nb by simp
  have t: "takeWhile (\<lambda>c. c \<noteq> CHR '':'') (rev item) = rev ?b"
    unfolding r by (rule takeWhile_until[OF nrb])
  have d: "dropWhile (\<lambda>c. c \<noteq> CHR '':'') (rev item) = CHR '':'' # rev a"
    unfolding r by (rule dropWhile_until[OF nrb])
  have m: "CHR '':'' \<in> set item" by (subst i) simp
  show ?thesis unfolding claimed_pair_def t d using m n p by simp
qed

text \<open>
  Claim C6. The property holds of the rows above, but not of a pair whose id holds a
  colon, as the ids of Gene3D do. The property records the id \<^verbatim>\<open>G3DSA:1.10\<close> with the
  count 2. In the code \<^verbatim>\<open>rsplit(":", 2)\<close> cuts the item into three parts, the
  unpacking into two names fails, and the parser raises \<^verbatim>\<open>ValueError\<close>: the cut
  from the right allows for colons in an id, the bound 2 in place of 1 undoes it. The
  branch for GO, whose ids hold a colon, records them.
\<close>

theorem parse_domains_colon_in_id:
  "claimed_pair ''G3DSA:1.10:2'' = Some (''G3DSA:1.10'', 2) \<and>
   rsplit_char_max CHR '':'' 2 ''G3DSA:1.10:2'' = [''G3DSA'', ''1.10'', ''2''] \<and>
   parse_domains_from_functional_annotations_file
     [''#protein_id Gene3D'', ''A.1 G3DSA:1.10:2''] scenario_pc = Inl ValueError"
  by (simp add: claimed_pair_def py_int_def strip_def is_space_def int_unsigned_def is_digit_def
      digit_value_def rsplit_char_max_def eval_nat_numeral
      parse_domains_from_functional_annotations_file_def annotation_line_def
      split_whitespace_def startswith_hash_def scenario_pc_def)

section \<open>The proteins of the sequence-id mapping\<close>

lemma split_pair_nonempty: "split_pair a b s \<noteq> []"
  by (induction a b s rule: split_pair.induct) (auto split: list.splits)

lemma split_pair_after:
  "after_colon_space line = Some r \<Longrightarrow>
     \<exists>seqid. split_pair CHR '':'' CHR '' '' line = seqid # split_pair CHR '':'' CHR '' '' r"
proof (induction line rule: after_colon_space.induct)
  case 1
  then show ?case by simp
next
  case (2 c)
  then show ?case by simp
next
  case (3 c d cs)
  show ?case
  proof (cases "c = CHR '':'' \<and> d = CHR '' ''")
    case True
    with "3.prems" show ?thesis by simp
  next
    case False
    with "3.IH" "3.prems" obtain seqid where
      "split_pair CHR '':'' CHR '' '' (d # cs) = seqid # split_pair CHR '':'' CHR '' '' r"
      by auto
    with False show ?thesis by auto
  qed
qed

lemma first_token_field:
  "first_token r = [] \<or> last (first_token r) \<noteq> CHR '':'' \<Longrightarrow>
     first_token (hd (split_pair CHR '':'' CHR '' '' r)) = first_token r"
proof (induction "CHR '':''" "CHR '' ''" r rule: split_pair.induct)
  case 1
  then show ?case by simp
next
  case (2 c)
  then show ?case by simp
next
  case (3 c d cs)
  show ?case
  proof (cases "c = CHR '':'' \<and> d = CHR '' ''")
    case True
    with "3.prems" show ?thesis by (simp add: first_token_def)
  next
    case False
    obtain w ws where w: "split_pair CHR '':'' CHR '' '' (d # cs) = w # ws"
      using split_pair_nonempty[of "CHR '':''" "CHR '' ''" "d # cs"]
      by (cases "split_pair CHR '':'' CHR '' '' (d # cs)") auto
    show ?thesis
    proof (cases "c = CHR '' ''")
      case True
      with False w show ?thesis by (simp add: first_token_def)
    next
      case sp: False
      have "first_token (d # cs) = [] \<or> last (first_token (d # cs)) \<noteq> CHR '':''"
        using "3.prems" sp by (auto simp: first_token_def split: if_splits)
      from "3.hyps"(2)[OF False this] w have e: "first_token w = first_token (d # cs)" by simp
      have s3: "split_pair CHR '':'' CHR '' '' (c # d # cs) = (c # w) # ws"
        using False w by simp
      have a: "first_token (c # w) = c # first_token w"
        and b: "first_token (c # d # cs) = c # first_token (d # cs)"
        using sp by (simp_all add: first_token_def)
      show ?thesis unfolding s3 by (simp only: list.sel a b e)
    qed
  qed
qed

lemma seq_line_agrees:
  assumes "after_colon_space line = Some r"
    and "first_token r = [] \<or> last (first_token r) \<noteq> CHR '':''"
  shows "seq_line m line =
     Inr (case m (species_prefix line) of
            None \<Rightarrow> None
          | Some prot \<Rightarrow>
              if prot = [] then None
              else Some (new_Protein (orthofinder_id (first_token r)) prot (species_prefix line)
                     (hd (split_pair CHR '':'' CHR '' '' line))))"
proof -
  from split_pair_after[OF assms(1)] obtain seqid where
    s: "split_pair CHR '':'' CHR '' '' line = seqid # split_pair CHR '':'' CHR '' '' r" by blast
  obtain field rest where f: "split_pair CHR '':'' CHR '' '' r = field # rest"
    using split_pair_nonempty[of "CHR '':''" "CHR '' ''" r]
    by (cases "split_pair CHR '':'' CHR '' '' r") auto
  have "first_token field = first_token r"
    using first_token_field[OF assms(2)] f by simp
  then have t: "takeWhile (\<lambda>c. c \<noteq> CHR '' '') field = takeWhile (\<lambda>c. c \<noteq> CHR '' '') r"
    by (simp only: first_token_def)
  show ?thesis
    by (simp add: seq_line_def s f t Let_def species_prefix_def hd_split_char first_token_def
        split: option.splits)
qed

lemma seq_line_line_protein:
  assumes "token_without_final_colon line"
  shows "seq_line m line = Inr (line_protein m line)"
proof -
  from assms obtain r where r: "after_colon_space line = Some r"
    and t: "first_token r = [] \<or> last (first_token r) \<noteq> CHR '':''"
    by (auto simp: token_without_final_colon_def split: option.splits)
  show ?thesis
    unfolding seq_line_agrees[OF r t]
    by (simp add: line_protein_def claimed_protein_id_def r split: option.splits)
qed

lemma split_pair_no_separator:
  "after_colon_space line = None \<Longrightarrow> split_pair CHR '':'' CHR '' '' line = [line]"
  by (induction line rule: after_colon_space.induct) (auto split: if_splits)

lemma seq_line_error:
  "seq_line m line = Inl e \<longleftrightarrow> e = IndexError \<and> after_colon_space line = None"
proof (cases "after_colon_space line")
  case None
  from split_pair_no_separator[OF None] None show ?thesis
    by (auto simp: seq_line_def)
next
  case (Some r)
  from split_pair_after[OF Some] obtain seqid where
    s: "split_pair CHR '':'' CHR '' '' line = seqid # split_pair CHR '':'' CHR '' '' r" by blast
  obtain field rest where f: "split_pair CHR '':'' CHR '' '' r = field # rest"
    using split_pair_nonempty[of "CHR '':''" "CHR '' ''" r]
    by (cases "split_pair CHR '':'' CHR '' '' r") auto
  show ?thesis
    by (simp add: seq_line_def s f Some Let_def split: option.splits)
qed

lemma seq_lines_error:
  "seq_lines m file_lines proteins = Inl e \<longleftrightarrow>
     e = IndexError \<and> (\<exists>line \<in> set file_lines. after_colon_space line = None)"
proof (induction file_lines arbitrary: proteins)
  case Nil
  show ?case by simp
next
  case (Cons line rest)
  show ?case
  proof (cases "seq_line m line")
    case (Inl e')
    with seq_line_error[of m line e'] show ?thesis by auto
  next
    case (Inr p)
    with seq_line_error[of m line IndexError] have "after_colon_space line \<noteq> None" by auto
    with Inr Cons.IH show ?thesis by (cases p) auto
  qed
qed

lemma seq_lines_result:
  "\<forall>line \<in> set file_lines. token_without_final_colon line \<Longrightarrow>
     seq_lines m file_lines proteins = Inr (proteins @ List.map_filter (line_protein m) file_lines)"
proof (induction file_lines arbitrary: proteins)
  case Nil
  show ?case by (simp add: List.map_filter_simps)
next
  case (Cons line rest)
  then have l: "seq_line m line = Inr (line_protein m line)" and
    r: "\<forall>line \<in> set rest. token_without_final_colon line"
    by (simp_all add: seq_line_line_protein)
  show ?case
    using Cons.IH[OF r] l by (cases "line_protein m line") (simp_all add: List.map_filter_simps)
qed

text \<open>
  Where the code and the property agree. For a file whose every line holds a
  \<^verbatim>\<open>": "\<close> and has a first token after it that does not end in a colon, the proteins
  returned are, in the order of the lines, those of the lines whose species prefix resolves
  to a proteome id that is not empty, the protein id being that token with the four
  characters replaced. A line whose species prefix does not resolve gives no protein. The
  only error is \<^verbatim>\<open>IndexError\<close>, raised exactly when some line holds no
  \<^verbatim>\<open>": "\<close>.
\<close>

theorem get_protein_list_from_seq_f_proteins:
  "((\<forall>line \<in> set file_lines. token_without_final_colon line) \<longrightarrow>
      get_protein_list_from_seq_f file_lines m = Inr (List.map_filter (line_protein m) file_lines)) \<and>
   (\<forall>line p. line_protein m line = Some p \<longrightarrow>
      m (species_prefix line) = Some (proteome_id p) \<and> proteome_id p \<noteq> [] \<and>
      Some (protein_id p) = claimed_protein_id line) \<and>
   (\<forall>line. m (species_prefix line) = None \<longrightarrow> line_protein m line = None) \<and>
   (\<forall>e. get_protein_list_from_seq_f file_lines m = Inl e \<longleftrightarrow>
      e = IndexError \<and> (\<exists>line \<in> set file_lines. after_colon_space line = None))"
proof -
  have 1: "(\<forall>line \<in> set file_lines. token_without_final_colon line) \<longrightarrow>
      get_protein_list_from_seq_f file_lines m = Inr (List.map_filter (line_protein m) file_lines)"
    using seq_lines_result[of file_lines m "[]"] by (simp add: get_protein_list_from_seq_f_def)
  have 2: "\<forall>line p. line_protein m line = Some p \<longrightarrow>
      m (species_prefix line) = Some (proteome_id p) \<and> proteome_id p \<noteq> [] \<and>
      Some (protein_id p) = claimed_protein_id line"
    by (auto simp: line_protein_def new_Protein_def split: option.splits if_splits)
  have 3: "\<forall>line. m (species_prefix line) = None \<longrightarrow> line_protein m line = None"
    by (auto simp: line_protein_def split: option.splits)
  have 4: "\<forall>e. get_protein_list_from_seq_f file_lines m = Inl e \<longleftrightarrow>
      e = IndexError \<and> (\<exists>line \<in> set file_lines. after_colon_space line = None)"
    using seq_lines_error[of m file_lines "[]"] by (simp add: get_protein_list_from_seq_f_def)
  from 1 2 3 4 show ?thesis by blast
qed

theorem get_protein_list_from_seq_f_proteins_witness:
  "get_protein_list_from_seq_f [''0_0: A.1 first protein'', ''7_0: Z.1 unknown species'', ''0_1: g(1),x:2'']
     (map_of [(''0'', ''A'')]) =
   Inr [new_Protein ''A.1'' ''A'' ''0'' ''0_0'', new_Protein ''g_1__x_2'' ''A'' ''0'' ''0_1'']"
proof -
  let ?lines = "[''0_0: A.1 first protein'', ''7_0: Z.1 unknown species'', ''0_1: g(1),x:2'']"
  have h: "\<forall>line \<in> set ?lines. token_without_final_colon line"
    by (simp add: token_without_final_colon_def first_token_def)
  have v: "List.map_filter (line_protein (map_of [(''0'', ''A'')])) ?lines =
      [new_Protein ''A.1'' ''A'' ''0'' ''0_0'', new_Protein ''g_1__x_2'' ''A'' ''0'' ''0_1'']"
    by (simp add: List.map_filter_simps line_protein_def claimed_protein_id_def first_token_def
      species_prefix_def orthofinder_id_def replace_char_def)
  from get_protein_list_from_seq_f_proteins[of ?lines "map_of [(''0'', ''A'')]"] h v
  show ?thesis by simp
qed

text \<open>
  Claim C5. The property does not hold of a line whose protein id ends in a colon. The
  line below is of the format, and the property gives the id \<^verbatim>\<open>gene1_\<close>, the colon
  replaced. In the code \<^verbatim>\<open>line.split(": ")\<close> has no bound on the cuts and cuts a
  second time after the id, so the colon is lost before the replacement and the protein is
  stored as \<^verbatim>\<open>gene1\<close>, against the comment of the source that the replacements
  are those of the clustering tool.
\<close>

theorem get_protein_list_from_seq_f_trailing_colon:
  "after_colon_space ''0_0: gene1: hypothetical protein'' = Some ''gene1: hypothetical protein'' \<and>
   first_token ''gene1: hypothetical protein'' = ''gene1:'' \<and>
   claimed_protein_id ''0_0: gene1: hypothetical protein'' = Some ''gene1_'' \<and>
   get_protein_list_from_seq_f [''0_0: gene1: hypothetical protein''] (map_of [(''0'', ''A'')]) =
     Inr [new_Protein ''gene1'' ''A'' ''0'' ''0_0'']"
  by (simp add: get_protein_list_from_seq_f_def seq_line_def claimed_protein_id_def first_token_def
      orthofinder_id_def replace_char_def Let_def)


end
